theory Spec2Isabelle
  imports Complex_Main
begin

section \<open>Scheduled-transfer execution engine (src/services/scheduledTransferService.js)\<close>

text \<open>
  A shallow embedding of \<^verbatim>\<open>executeScheduledTransfer\<close> and \<^verbatim>\<open>processDueTransfers\<close>.

  Conventions of the model:
  \<^item> JavaScript numbers (\<^verbatim>\<open>amount\<close>, \<^verbatim>\<open>maxAmount\<close>) are IEEE 754 binary64 values, and
    \<open>*\<close>, \<open>/\<close> and \<open>>\<close> on them round and compare as JavaScript does.
  \<^item> A thrown \<^verbatim>\<open>Error\<close> is a value of type \<open>error\<close>; the code only ever reads its
    \<^verbatim>\<open>message\<close>, which the constructor and its arguments determine.
  \<^item> \<^verbatim>\<open>async\<close>/\<^verbatim>\<open>await\<close> is sequential state passing over a \<open>world\<close>: the
    collection of stored transfers, a counter of collaborator calls, and logs of the calls
    made to the chain executor and to the recurrence expander. No other actor touches the
    collection while a call runs.
  \<^item> The collaborators (the Mongoose model, the authorization checker, the chain executor,
    the recurrence expander, the clock) are the fields of \<open>env\<close>. Each is a function of the
    call counter, so that it may answer differently, or throw, at every call.
  \<^item> The collection is a list of records; \<^verbatim>\<open>findById\<close> returns the first record with the
    id, \<^verbatim>\<open>save\<close> writes the record back under its id, and the sorted query is a stable
    sort on \<open>scheduledDate\<close>. \<open>parentRecurringId = Some p\<close> stands for a truthy
    \<^verbatim>\<open>parentRecurringId\<close>.
\<close>

subsection \<open>JavaScript numbers\<close>

text \<open>
  A JavaScript number is an IEEE 754 binary64 value: a finite value (a rational; \<open>Finite 0\<close>
  is \<open>+0\<close>), \<open>-0\<close>, an infinity or NaN. The operations the engine uses are \<open>*\<close>, \<open>/\<close> and
  \<open>>\<close>. Multiplication and division compute the exact result and round it to the nearest
  binary64 value, ties to even: with 53 significant bits for normal results, on the grid of
  multiples of \<open>2^-1074\<close> for subnormal ones, to an infinity from \<open>2^1024\<close> on, and to a
  signed zero on underflow. \<open>lit q\<close> is the number a decimal literal of value \<open>q\<close> denotes and
  \<open>ofNat n\<close> the number of an array length. The results of \<open>numMul\<close>, \<open>numDiv\<close>, \<open>lit\<close> and
  \<open>ofNat\<close> are binary64 values; a \<open>Finite q\<close> whose \<open>q\<close> is not one stands for no JavaScript
  number, and the operations treat it as the exact value \<open>q\<close>.
\<close>

datatype number = Finite rat | NegZero | PosInf | NegInf | NaN

text \<open>The number of binary digits of a non-negative integer.\<close>

function bitLength :: "int \<Rightarrow> int" where
  "bitLength n = (if n \<le> 0 then 0 else 1 + bitLength (n div 2))"
  by pat_completeness auto
termination
  by (relation "measure nat") auto

declare bitLength.simps [simp del]

text \<open>
  For a fraction \<open>n / d\<close> with \<open>n, d > 0\<close>, \<open>ilogFrac n d\<close> is the exponent \<open>e\<close> with
  \<open>2^e \<le> n / d < 2^(e+1)\<close>.
\<close>

definition ilogFrac :: "int \<Rightarrow> int \<Rightarrow> int" where
  "ilogFrac n d =
     (let k = bitLength n - bitLength d
      in if (if k \<ge> 0 then d * 2 ^ nat k \<le> n else d \<le> n * 2 ^ nat (- k)) then k else k - 1)"

text \<open>The integer nearest to \<open>N / D\<close> (for \<open>N \<ge> 0\<close>, \<open>D > 0\<close>), ties to the even one.\<close>

definition roundDivHalfEven :: "int \<Rightarrow> int \<Rightarrow> int" where
  "roundDivHalfEven N D =
     (let q = N div D; r = N mod D
      in if 2 * r < D then q else if 2 * r > D then q + 1 else if even q then q else q + 1)"

definition signedZero :: "bool \<Rightarrow> number" where
  "signedZero neg = (if neg then NegZero else Finite 0)"

definition signedInf :: "bool \<Rightarrow> number" where
  "signedInf neg = (if neg then NegInf else PosInf)"

text \<open>
  The binary64 value nearest to the magnitude \<open>a \<ge> 0\<close>, with the sign \<open>neg\<close>: \<open>m\<close> is the
  significand, at most \<open>2^53\<close>, and \<open>2^p\<close> the weight of its last bit.
\<close>

definition roundTo :: "bool \<Rightarrow> rat \<Rightarrow> number" where
  "roundTo neg a =
     (if a = 0 then signedZero neg
      else
        let (n, d) = quotient_of a;
            e = ilogFrac n d;
            p = max (e - 52) (- 1074);
            m = (if p \<ge> 0 then roundDivHalfEven n (d * 2 ^ nat p)
                 else roundDivHalfEven (n * 2 ^ nat (- p)) d)
        in if m = 0 then signedZero neg
           else if e > 1023 \<or> (e = 1023 \<and> m \<ge> 9007199254740992) then signedInf neg
           else let r = (if p \<ge> 0 then of_int (m * 2 ^ nat p)
                         else of_int m / of_int (2 ^ nat (- p)))
                in Finite (if neg then - r else r))"

definition isNeg :: "number \<Rightarrow> bool" where
  "isNeg x = (case x of Finite q \<Rightarrow> q < 0 | NegZero \<Rightarrow> True | NegInf \<Rightarrow> True | _ \<Rightarrow> False)"

definition isInf :: "number \<Rightarrow> bool" where
  "isInf x = (x = PosInf \<or> x = NegInf)"

definition isZero :: "number \<Rightarrow> bool" where
  "isZero x = (x = Finite 0 \<or> x = NegZero)"

definition val :: "number \<Rightarrow> rat" where
  "val x = (case x of Finite q \<Rightarrow> q | _ \<Rightarrow> 0)"

definition numMul :: "number \<Rightarrow> number \<Rightarrow> number" where
  "numMul x y =
     (if x = NaN \<or> y = NaN then NaN
      else if (isInf x \<and> isZero y) \<or> (isZero x \<and> isInf y) then NaN
      else if isInf x \<or> isInf y then signedInf (isNeg x \<noteq> isNeg y)
      else roundTo (isNeg x \<noteq> isNeg y) \<bar>val x * val y\<bar>)"

definition numDiv :: "number \<Rightarrow> number \<Rightarrow> number" where
  "numDiv x y =
     (if x = NaN \<or> y = NaN then NaN
      else if (isInf x \<and> isInf y) \<or> (isZero x \<and> isZero y) then NaN
      else if isInf x then signedInf (isNeg x \<noteq> isNeg y)
      else if isInf y then signedZero (isNeg x \<noteq> isNeg y)
      else if isZero y then signedInf (isNeg x \<noteq> isNeg y)
      else roundTo (isNeg x \<noteq> isNeg y) \<bar>val x / val y\<bar>)"

definition numGt :: "number \<Rightarrow> number \<Rightarrow> bool" where
  "numGt x y =
     (if x = NaN \<or> y = NaN then False
      else if x = PosInf then y \<noteq> PosInf
      else if y = NegInf then x \<noteq> NegInf
      else if x = NegInf \<or> y = PosInf then False
      else val x > val y)"

definition lit :: "rat \<Rightarrow> number" where
  "lit q = roundTo (q < 0) \<bar>q\<bar>"

definition ofNat :: "nat \<Rightarrow> number" where
  "ofNat n = roundTo False (of_nat n)"

subsection \<open>Data model\<close>

datatype status = Scheduled | Executing | Completed | Failed | Cancelled

datatype error =
    NotFound                        \<comment> \<open>\<^verbatim>\<open>Scheduled transfer not found\<close>\<close>
  | InvalidState status             \<comment> \<open>\<^verbatim>\<open>Transfer status is ..., cannot execute\<close>\<close>
  | Unauthorized                    \<comment> \<open>\<^verbatim>\<open>User authorization is invalid or expired\<close>\<close>
  | ExceedsAuthorization number number    \<comment> \<open>\<^verbatim>\<open>Total transfer amount ... exceeds authorized maximum ...\<close>\<close>
  | SendFailures nat nat            \<comment> \<open>\<^verbatim>\<open>Some transfers failed: k/n\<close>\<close>
  | TypeError                       \<comment> \<open>reading a property of \<^verbatim>\<open>undefined\<close>\<close>
  | External string                 \<comment> \<open>thrown by a collaborator, with its message\<close>

record recipient_entry =
  address :: string

record result_record =
  rr_recipient :: string
  rr_transactionId :: "string option"
  rr_status :: status
  rr_error :: "error option"

record transfer =
  tid :: string
  title :: string
  userAddress :: string
  recipient :: string
  recipients :: "recipient_entry list"
  amount :: number
  amountPerRecipient :: bool
  scheduledDate :: int
  retryLimit :: nat
  status :: status
  executedAt :: "int option"
  transactionIds :: "result_record list"
  transactionId :: "string option"
  errorMessage :: "error option"
  parentRecurringId :: "string option"

record authCheck =
  isValid :: bool
  maxAmount :: number

record send_result =
  success :: bool
  sr_transactionId :: "string option"
  sr_error :: "string option"

type_synonym send_call = "string \<times> string \<times> number \<times> nat"

record world =
  db :: "transfer list"
  tick :: nat
  sent :: "send_call list"
  expanded :: "string list"

text \<open>
  Modelled from the spec: \<^verbatim>\<open>generateNextInstance\<close> (recurringTransferService.js) and the
  Mongoose model \<^verbatim>\<open>ScheduledTransfer\<close> (models/ScheduledTransfer.js) are not among the
  sources. The expander is a parameter that may throw and that, as section 4.6 of the
  specification says, only creates new records. The store follows section 4.1: lookup by
  id, atomic write-back of a whole record, the query for due records; any of its calls may
  fail (\<open>storeFault\<close>).

  \<^verbatim>\<open>checkAuthorization\<close> and \<^verbatim>\<open>executeOnChain\<close> are the functions of
  scheduledTransferFlowService.js. What they answer depends on the chain and on the process
  environment, so they are parameters too. The chain executor of the sources catches its
  own errors and answers \<^verbatim>\<open>{success: false, error}\<close>; the parameter may also throw,
  which the engine's per-recipient \<^verbatim>\<open>catch\<close> provides for.
\<close>

record env =
  storeFault :: "nat \<Rightarrow> string option"
  checkAuthorization :: "nat \<Rightarrow> string \<Rightarrow> string + authCheck"
  executeOnChain :: "nat \<Rightarrow> string \<Rightarrow> string \<Rightarrow> number \<Rightarrow> nat \<Rightarrow> string + send_result"
  generateNextInstance :: "nat \<Rightarrow> string \<Rightarrow> string option \<times> transfer list"
  clock :: "nat \<Rightarrow> int"

datatype exec_result =
    Success transfer "result_record list"   \<comment> \<open>\<^verbatim>\<open>{success: true, transfer, results}\<close>\<close>
  | Failure error                            \<comment> \<open>\<^verbatim>\<open>{success: false, error}\<close>\<close>

record batch_entry =
  transferId :: string
  be_title :: string
  outcome :: exec_result

datatype summary =
    NoDue nat string                          \<comment> \<open>\<^verbatim>\<open>{processed: 0, message}\<close>\<close>
  | Summary nat nat nat "batch_entry list"    \<comment> \<open>\<^verbatim>\<open>{processed, successful, failed, results}\<close>\<close>

subsection \<open>Exceptions and state\<close>

type_synonym 'a io = "world \<Rightarrow> (error + 'a) \<times> world"

definition returnE :: "'a \<Rightarrow> 'a io" where
  "returnE x = (\<lambda>w. (Inr x, w))"

definition throwE :: "error \<Rightarrow> 'a io" where
  "throwE e = (\<lambda>w. (Inl e, w))"

definition bindE :: "'a io \<Rightarrow> ('a \<Rightarrow> 'b io) \<Rightarrow> 'b io" where
  "bindE m f = (\<lambda>w. case m w of (Inl e, w') \<Rightarrow> (Inl e, w') | (Inr x, w') \<Rightarrow> f x w')"

definition catchE :: "'a io \<Rightarrow> (error \<Rightarrow> 'a io) \<Rightarrow> 'a io" where
  "catchE m h = (\<lambda>w. case m w of (Inl e, w') \<Rightarrow> h e w' | (Inr x, w') \<Rightarrow> (Inr x, w'))"

definition tickw :: "world \<Rightarrow> world" where
  "tickw w = w\<lparr>tick := Suc (tick w)\<rparr>"

subsection \<open>Collaborator calls\<close>

text \<open>The record stored under an id, and the collection after a record has been written back.\<close>

definition stored :: "world \<Rightarrow> string \<Rightarrow> transfer option" where
  "stored w i = find (\<lambda>t. tid t = i) (db w)"

definition replaceById :: "transfer \<Rightarrow> transfer list \<Rightarrow> transfer list" where
  "replaceById t xs = map (\<lambda>x. if tid x = tid t then t else x) xs"

definition findById :: "env \<Rightarrow> string \<Rightarrow> transfer option io" where
  "findById env i = (\<lambda>w.
     case storeFault env (tick w) of
       Some m \<Rightarrow> (Inl (External m), tickw w)
     | None \<Rightarrow> (Inr (stored w i), tickw w))"

definition save :: "env \<Rightarrow> transfer \<Rightarrow> unit io" where
  "save env t = (\<lambda>w.
     case storeFault env (tick w) of
       Some m \<Rightarrow> (Inl (External m), tickw w)
     | None \<Rightarrow> (Inr (), tickw (w\<lparr>db := replaceById t (db w)\<rparr>)))"

definition isDue :: "int \<Rightarrow> transfer \<Rightarrow> bool" where
  "isDue now t = (status t = Scheduled \<and> scheduledDate t \<le> now)"

definition findDue :: "env \<Rightarrow> int \<Rightarrow> transfer list io" where
  "findDue env now = (\<lambda>w.
     case storeFault env (tick w) of
       Some m \<Rightarrow> (Inl (External m), tickw w)
     | None \<Rightarrow> (Inr (sort_key scheduledDate (filter (isDue now) (db w))), tickw w))"

definition callCheckAuthorization :: "env \<Rightarrow> string \<Rightarrow> authCheck io" where
  "callCheckAuthorization env u = (\<lambda>w.
     case checkAuthorization env (tick w) u of
       Inl m \<Rightarrow> (Inl (External m), tickw w)
     | Inr a \<Rightarrow> (Inr a, tickw w))"

definition callExecuteOnChain :: "env \<Rightarrow> string \<Rightarrow> string \<Rightarrow> number \<Rightarrow> nat \<Rightarrow> send_result io" where
  "callExecuteOnChain env u r a l = (\<lambda>w.
     let w' = tickw (w\<lparr>sent := sent w @ [(u, r, a, l)]\<rparr>) in
     case executeOnChain env (tick w) u r a l of
       Inl m \<Rightarrow> (Inl (External m), w')
     | Inr res \<Rightarrow> (Inr res, w'))"

definition callGenerateNextInstance :: "env \<Rightarrow> string \<Rightarrow> unit io" where
  "callGenerateNextInstance env p = (\<lambda>w.
     let (failure, created) = generateNextInstance env (tick w) p;
         w' = tickw (w\<lparr>db := db w @ created, expanded := expanded w @ [p]\<rparr>) in
     case failure of
       Some m \<Rightarrow> (Inl (External m), w')
     | None \<Rightarrow> (Inr (), w'))"

subsection \<open>executeScheduledTransfer\<close>

definition currentDate :: "env \<Rightarrow> int io" where
  "currentDate env = (\<lambda>w. (Inr (clock env (tick w)), w))"

definition normalizedRecipients :: "transfer \<Rightarrow> recipient_entry list" where
  "normalizedRecipients t =
     (if length (recipients t) > 0 then recipients t else [\<lparr>address = recipient t\<rparr>])"

definition totalAmount :: "transfer \<Rightarrow> recipient_entry list \<Rightarrow> number" where
  "totalAmount t rs =
     (if amountPerRecipient t then numMul (amount t) (ofNat (length rs)) else amount t)"

definition recipientAmount :: "transfer \<Rightarrow> recipient_entry list \<Rightarrow> number" where
  "recipientAmount t rs =
     (if amountPerRecipient t then amount t else numDiv (amount t) (ofNat (length rs)))"

text \<open>
  The \<^verbatim>\<open>for\<close> loop over the recipients (lines 50 to 81). \<open>rs\<close> is the whole recipient
  list (its length divides the amount), \<open>todo\<close> the recipients still to be visited.
\<close>

fun fanout :: "env \<Rightarrow> transfer \<Rightarrow> recipient_entry list \<Rightarrow> recipient_entry list \<Rightarrow>
    result_record list \<Rightarrow> bool \<Rightarrow> world \<Rightarrow> (result_record list \<times> bool) \<times> world" where
  "fanout env t rs [] results allSuccessful w = ((results, allSuccessful), w)"
| "fanout env t rs (r # todo) results allSuccessful w =
     (case callExecuteOnChain env (userAddress t) (address r) (recipientAmount t rs)
             (retryLimit t) w of
        (Inr res, w') \<Rightarrow>
          fanout env t rs todo
            (results @ [\<lparr>rr_recipient = address r, rr_transactionId = sr_transactionId res,
                         rr_status = (if success res then Completed else Failed),
                         rr_error = map_option External (sr_error res)\<rparr>])
            (if \<not> success res then False else allSuccessful) w'
      | (Inl e, w') \<Rightarrow>
          fanout env t rs todo
            (results @ [\<lparr>rr_recipient = address r, rr_transactionId = None,
                         rr_status = Failed, rr_error = Some e\<rparr>])
            False w')"

text \<open>The branch \<^verbatim>\<open>if (allSuccessful)\<close> (lines 83 to 108).\<close>

definition finishSuccess :: "env \<Rightarrow> transfer \<Rightarrow> recipient_entry list \<Rightarrow> result_record list \<Rightarrow>
    (transfer \<times> result_record list) io" where
  "finishSuccess env t rs results =
     bindE (currentDate env) (\<lambda>d.
     bindE (let t1 = t\<lparr>status := Completed, executedAt := Some d, transactionIds := results\<rparr> in
            if length rs = 1
            then (case results of
                    [] \<Rightarrow> throwE TypeError
                  | r # _ \<Rightarrow> returnE (t1\<lparr>transactionId := rr_transactionId r\<rparr>))
            else returnE t1) (\<lambda>t2.
     bindE (save env t2) (\<lambda>_.
     bindE (case parentRecurringId t2 of
              Some p \<Rightarrow> catchE (callGenerateNextInstance env p) (\<lambda>_. returnE ())
            | None \<Rightarrow> returnE ()) (\<lambda>_.
     returnE (t2, results)))))"

text \<open>The body of the outer \<^verbatim>\<open>try\<close> (lines 12 to 111).\<close>

definition tryBody :: "env \<Rightarrow> string \<Rightarrow> (transfer \<times> result_record list) io" where
  "tryBody env i =
     bindE (findById env i) (\<lambda>found.
     case found of
       None \<Rightarrow> throwE NotFound
     | Some t \<Rightarrow>
         if status t \<noteq> Scheduled then throwE (InvalidState (status t))
         else
           bindE (callCheckAuthorization env (userAddress t)) (\<lambda>auth.
           if \<not> isValid auth then throwE Unauthorized
           else
             let rs = normalizedRecipients t in
             if numGt (totalAmount t rs) (maxAmount auth)
             then throwE (ExceedsAuthorization (totalAmount t rs) (maxAmount auth))
             else
               let t0 = t\<lparr>status := Executing\<rparr> in
               bindE (save env t0) (\<lambda>_.
               bindE (\<lambda>w. case fanout env t0 rs rs [] True w of (x, w') \<Rightarrow> (Inr x, w'))
                 (\<lambda>(results, allSuccessful).
               if allSuccessful then finishSuccess env t0 rs results
               else throwE (SendFailures
                              (length (filter (\<lambda>r. rr_status r = Failed) results))
                              (length rs))))))"

text \<open>The outer \<^verbatim>\<open>catch\<close> (lines 112 to 132), with its own inner \<^verbatim>\<open>try\<close>/\<^verbatim>\<open>catch\<close>.\<close>

definition markFailed :: "env \<Rightarrow> string \<Rightarrow> error \<Rightarrow> exec_result io" where
  "markFailed env i e =
     bindE (catchE
              (bindE (findById env i) (\<lambda>found.
               case found of
                 None \<Rightarrow> returnE ()
               | Some t \<Rightarrow>
                   bindE (currentDate env) (\<lambda>d.
                   save env (t\<lparr>status := Failed, executedAt := Some d,
                              errorMessage := Some e\<rparr>))))
              (\<lambda>updateError. returnE ())) (\<lambda>_.
     returnE (Failure e))"

definition executeScheduledTransfer :: "env \<Rightarrow> string \<Rightarrow> exec_result io" where
  "executeScheduledTransfer env i =
     catchE (bindE (tryBody env i) (\<lambda>(t, results). returnE (Success t results)))
            (markFailed env i)"

subsection \<open>processDueTransfers\<close>

definition isSuccess :: "exec_result \<Rightarrow> bool" where
  "isSuccess r = (case r of Success _ _ \<Rightarrow> True | Failure _ \<Rightarrow> False)"

fun processLoop :: "env \<Rightarrow> transfer list \<Rightarrow> batch_entry list \<Rightarrow> world \<Rightarrow>
    (error + batch_entry list) \<times> world" where
  "processLoop env [] results w = (Inr results, w)"
| "processLoop env (t # ts) results w =
     (case executeScheduledTransfer env (tid t) w of
        (Inl e, w') \<Rightarrow> (Inl e, w')
      | (Inr result, w') \<Rightarrow>
          processLoop env ts
            (results @ [\<lparr>transferId = tid t, be_title = title t, outcome = result\<rparr>]) w')"

definition processDueTransfers :: "env \<Rightarrow> summary io" where
  "processDueTransfers env =
     catchE
       (bindE (currentDate env) (\<lambda>now.
        bindE (findDue env now) (\<lambda>dueTransfers.
        if length dueTransfers = 0 then returnE (NoDue 0 ''No due transfers to process'')
        else
          bindE (processLoop env dueTransfers []) (\<lambda>results.
          let successful = length (filter (\<lambda>r. isSuccess (outcome r)) results);
              failed = length (filter (\<lambda>r. \<not> isSuccess (outcome r)) results)
          in returnE (Summary (length dueTransfers) successful failed results)))))
       (\<lambda>error. throwE error)"


section \<open>Vocabulary for the properties\<close>

text \<open>
  The calls that the fan-out of transfer \<open>t\<close> makes to the chain executor, the result record
  that the loop pushes for recipient \<open>r\<close> when its send is collaborator call number \<open>k\<close>,
  the result list of a fan-out that starts at call number \<open>k\<close>, and the record that the
  success branch writes.
\<close>

definition callsFor :: "transfer \<Rightarrow> send_call list" where
  "callsFor t = map (\<lambda>r. (userAddress t, address r,
       recipientAmount t (normalizedRecipients t), retryLimit t)) (normalizedRecipients t)"

definition sendOutcome :: "env \<Rightarrow> transfer \<Rightarrow> recipient_entry list \<Rightarrow> nat \<Rightarrow>
    recipient_entry \<Rightarrow> result_record" where
  "sendOutcome env t rs k r =
     (case executeOnChain env k (userAddress t) (address r) (recipientAmount t rs) (retryLimit t) of
        Inr res \<Rightarrow> \<lparr>rr_recipient = address r, rr_transactionId = sr_transactionId res,
                    rr_status = (if success res then Completed else Failed),
                    rr_error = map_option External (sr_error res)\<rparr>
      | Inl m \<Rightarrow> \<lparr>rr_recipient = address r, rr_transactionId = None,
                  rr_status = Failed, rr_error = Some (External m)\<rparr>)"

definition sendResults :: "env \<Rightarrow> transfer \<Rightarrow> nat \<Rightarrow> result_record list" where
  "sendResults env t k =
     map (\<lambda>(j, r). sendOutcome env t (normalizedRecipients t) j r)
       (zip [k..<k + length (normalizedRecipients t)] (normalizedRecipients t))"

definition completedTransfer :: "env \<Rightarrow> transfer \<Rightarrow> recipient_entry list \<Rightarrow>
    result_record list \<Rightarrow> nat \<Rightarrow> transfer" where
  "completedTransfer env t rs results k =
     (let t1 = t\<lparr>status := Completed, executedAt := Some (clock env k),
                transactionIds := results\<rparr>
      in if length rs = 1 then t1\<lparr>transactionId := rr_transactionId (hd results)\<rparr> else t1)"

definition entries :: "summary \<Rightarrow> batch_entry list" where
  "entries s = (case s of NoDue _ _ \<Rightarrow> [] | Summary _ _ _ rs \<Rightarrow> rs)"

text \<open>
  Calling \<^verbatim>\<open>executeScheduledTransfer\<close> on the given ids one after the other, each call
  starting in the world that the call before it left: what the calls returned, in order, and
  the world after the last call.
\<close>

fun executeSequentially :: "env \<Rightarrow> string list \<Rightarrow> world \<Rightarrow> (error + exec_result) list \<times> world" where
  "executeSequentially env [] w = ([], w)"
| "executeSequentially env (i # ids) w =
     (case executeScheduledTransfer env i w of
        (r, w1) \<Rightarrow> (case executeSequentially env ids w1 of (rs, w2) \<Rightarrow> (r # rs, w2)))"

definition outcomeOk :: "world \<Rightarrow> string \<Rightarrow> (error + transfer \<times> result_record list) \<Rightarrow> world \<Rightarrow> bool" where
  "outcomeOk w i x w1 =
     ((\<forall>u \<in> set (db w). tid u \<noteq> i \<longrightarrow> u \<in> set (db w1)) \<and>
      (case x of
         Inl e \<Rightarrow> expanded w1 = expanded w
       | Inr (t', res) \<Rightarrow>
           expanded w1 = expanded w @ (case parentRecurringId t' of None \<Rightarrow> [] | Some p \<Rightarrow> [p])
           \<and> status t' = Completed))"

section \<open>Example data\<close>

text \<open>
  An environment in which every collaborator succeeds and the authorization limit is 100,
  a scheduled transfer of user \<open>0xUSER\<close>, and a world that holds the given records.
\<close>

definition okEnv :: env where
  "okEnv = \<lparr>storeFault = (\<lambda>k. None),
            checkAuthorization = (\<lambda>k u. Inr \<lparr>isValid = True, maxAmount = Finite 100\<rparr>),
            executeOnChain = (\<lambda>k u r a l.
               Inr \<lparr>success = True, sr_transactionId = Some (''tx_'' @ r), sr_error = None\<rparr>),
            generateNextInstance = (\<lambda>k p. (None, [])),
            clock = (\<lambda>k. 1000 + int k)\<rparr>"

definition mkTransfer :: "string \<Rightarrow> int \<Rightarrow> string list \<Rightarrow> number \<Rightarrow> bool \<Rightarrow> transfer" where
  "mkTransfer i d as x per =
     \<lparr>tid = i, title = ''transfer '' @ i, userAddress = ''0xUSER'', recipient = ''0xLEGACY'',
      recipients = map (\<lambda>a. \<lparr>address = a\<rparr>) as, amount = x, amountPerRecipient = per,
      scheduledDate = d, retryLimit = 3, status = Scheduled, executedAt = None,
      transactionIds = [], transactionId = None, errorMessage = None,
      parentRecurringId = None\<rparr>"

definition mkWorld :: "transfer list \<Rightarrow> world" where
  "mkWorld ts = \<lparr>db = ts, tick = 0, sent = [], expanded = []\<rparr>"

definition lowLimitEnv :: env where
  "lowLimitEnv = okEnv\<lparr>checkAuthorization := (\<lambda>k u. Inr \<lparr>isValid = True, maxAmount = Finite 15\<rparr>)\<rparr>"

definition perRecipientWorld :: world where
  "perRecipientWorld = mkWorld [mkTransfer ''t1'' 0 [''0xA'', ''0xB''] (Finite 10) True]"

definition completedWorld :: world where
  "completedWorld = mkWorld [(mkTransfer ''t1'' 0 [''0xA''] (Finite 10) False)\<lparr>status := Completed\<rparr>]"

definition failBEnv :: env where
  "failBEnv = okEnv\<lparr>executeOnChain := (\<lambda>k u r a l.
      if r = ''0xB''
      then Inr \<lparr>success = False, sr_transactionId = None, sr_error = Some ''rejected''\<rparr>
      else Inr \<lparr>success = True, sr_transactionId = Some (''tx_'' @ r), sr_error = None\<rparr>)\<rparr>"

definition throwingExpanderEnv :: env where
  "throwingExpanderEnv = okEnv\<lparr>generateNextInstance := (\<lambda>k p. (Some ''expander down'', []))\<rparr>"

definition twoWorld :: world where
  "twoWorld = mkWorld [mkTransfer ''t1'' 0 [''0xA'', ''0xB''] (Finite 30) False]"

definition splitWorld :: world where
  "splitWorld = mkWorld [mkTransfer ''t1'' 0 [''0xA'', ''0xB'', ''0xC''] (Finite 30) False]"

definition recurringWorld :: world where
  "recurringWorld =
     mkWorld [(mkTransfer ''t1'' 0 [''0xA''] (Finite 10) False)\<lparr>parentRecurringId := Some ''rec1''\<rparr>]"

definition throwBEnv :: env where
  "throwBEnv = okEnv\<lparr>executeOnChain := (\<lambda>k u r a l.
      if r = ''0xB'' then Inl ''timeout''
      else Inr \<lparr>success = True, sr_transactionId = Some (''tx_'' @ r), sr_error = None\<rparr>)\<rparr>"

definition dueWorld :: world where
  "dueWorld = mkWorld [mkTransfer ''t_minus5'' 995 [''0xB''] (Finite 6) False,
                       mkTransfer ''t_plus5'' 1005 [''0xC''] (Finite 7) False,
                       mkTransfer ''t_minus10'' 990 [''0xA''] (Finite 5) False]"

definition tenthEnv :: env where
  "tenthEnv = okEnv\<lparr>checkAuthorization := (\<lambda>k u. Inr \<lparr>isValid = True, maxAmount = lit (3 / 10)\<rparr>)\<rparr>"

definition tenthWorld :: world where
  "tenthWorld = mkWorld [mkTransfer ''t1'' 0 [''0xA'', ''0xB'', ''0xC''] (lit (1 / 10)) True]"

definition downEnv :: env where
  "downEnv = okEnv\<lparr>storeFault := (\<lambda>k. Some ''store down'')\<rparr>"

section \<open>Auxiliary lemmas\<close>

lemmas io_defs = bindE_def catchE_def returnE_def throwE_def

subsection \<open>The store\<close>

lemma find_replace:
  "tid t = i \<Longrightarrow> find (\<lambda>x. tid x = i) (map (\<lambda>x. if tid x = i then t else x) xs)
     = (case find (\<lambda>x. tid x = i) xs of None \<Rightarrow> None | Some _ \<Rightarrow> Some t)"
  by (induction xs) auto

lemma find_tid: "find (\<lambda>x. tid x = i) xs = Some t \<Longrightarrow> tid t = i \<and> t \<in> set xs"
  by (induction xs) (auto split: if_splits)

lemma find_append_Some: "find P xs = Some t \<Longrightarrow> find P (xs @ ys) = Some t"
  by (induction xs) auto

subsection \<open>The fan-out loop in closed form\<close>

lemma upt_Suc_len: "[n..<Suc (n + k)] = n # [Suc n..<Suc n + k]"
  by (simp add: upt_conv_Cons)

lemma fanout_eq:
  "fanout env t rs todo acc ok w =
     ((acc @ map (\<lambda>(k, r). sendOutcome env t rs k r) (zip [tick w..<tick w + length todo] todo),
       ok \<and> (\<forall>x \<in> set (zip [tick w..<tick w + length todo] todo).
               rr_status (sendOutcome env t rs (fst x) (snd x)) = Completed)),
      w\<lparr>tick := tick w + length todo,
        sent := sent w @ map (\<lambda>r. (userAddress t, address r, recipientAmount t rs, retryLimit t)) todo\<rparr>)"
proof (induction todo arbitrary: acc ok w)
  case Nil
  then show ?case by simp
next
  case (Cons r todo)
  show ?case
    by (simp add: callExecuteOnChain_def Let_def tickw_def Cons.IH sendOutcome_def upt_Suc_len
        del: upt_Suc split: sum.splits)
qed

lemma status_irrelevant:
  "recipientAmount (t\<lparr>status := s\<rparr>) rs = recipientAmount t rs"
  "sendOutcome env (t\<lparr>status := s\<rparr>) rs k r = sendOutcome env t rs k r"
  by (simp_all add: recipientAmount_def sendOutcome_def)

lemma all_completed_conv:
  "(\<forall>x\<in>set (zip ks rs). rr_status (f (fst x) (snd x)) = Completed)
     = (\<forall>r \<in> set (map (\<lambda>(j, r). f j r) (zip ks rs)). rr_status r = Completed)"
  by auto

lemma normalizedRecipients_nonempty: "normalizedRecipients t \<noteq> []"
  by (simp add: normalizedRecipients_def)

lemma sendResults_length: "length (sendResults env t k) = length (normalizedRecipients t)"
  by (simp add: sendResults_def)

subsection \<open>The catch handler\<close>

lemma markFailed_result: "fst (markFailed env i e w) = Inr (Failure e)"
  by (simp add: markFailed_def io_defs findById_def save_def currentDate_def
      split: option.splits prod.splits sum.splits)

lemma markFailed_logs:
  "sent (snd (markFailed env i e w)) = sent w \<and>
   expanded (snd (markFailed env i e w)) = expanded w"
  by (simp add: markFailed_def io_defs findById_def save_def currentDate_def tickw_def
      split: option.splits prod.splits sum.splits)

lemma markFailed_ok:
  assumes "storeFault env (tick w) = None" "storeFault env (Suc (tick w)) = None"
  shows "markFailed env i e w =
    (Inr (Failure e),
     (case stored w i of
        None \<Rightarrow> w\<lparr>tick := Suc (tick w)\<rparr>
      | Some t \<Rightarrow>
          w\<lparr>db := replaceById (t\<lparr>status := Failed, executedAt := Some (clock env (Suc (tick w))),
                                 errorMessage := Some e\<rparr>) (db w),
            tick := Suc (Suc (tick w))\<rparr>))"
  using assms
  by (simp add: markFailed_def io_defs findById_def save_def currentDate_def tickw_def
      split: option.splits prod.splits sum.splits)

subsection \<open>The try body, path by path\<close>

lemma tryBody_notfound:
  assumes "storeFault env (tick w) = None" "stored w i = None"
  shows "tryBody env i w = (Inl NotFound, tickw w)"
  using assms by (simp add: tryBody_def io_defs findById_def)

lemma tryBody_invalid:
  assumes "storeFault env (tick w) = None" "stored w i = Some t" "status t \<noteq> Scheduled"
  shows "tryBody env i w = (Inl (InvalidState (status t)), tickw w)"
  using assms by (simp add: tryBody_def io_defs findById_def)

lemma tryBody_exceeds:
  assumes "storeFault env (tick w) = None" "stored w i = Some t" "status t = Scheduled"
    "checkAuthorization env (Suc (tick w)) (userAddress t) = Inr a" "isValid a"
    "numGt (totalAmount t (normalizedRecipients t)) (maxAmount a)"
  shows "tryBody env i w =
    (Inl (ExceedsAuthorization (totalAmount t (normalizedRecipients t)) (maxAmount a)),
     tickw (tickw w))"
  using assms
  by (simp add: tryBody_def io_defs findById_def callCheckAuthorization_def tickw_def Let_def)

lemma finishSuccess_ok:
  assumes "storeFault env (tick w) = None" "results \<noteq> []"
  shows "finishSuccess env t rs results w =
    (Inr (completedTransfer env t rs results (tick w), results),
     (case parentRecurringId t of
        None \<Rightarrow> w\<lparr>db := replaceById (completedTransfer env t rs results (tick w)) (db w),
                    tick := Suc (tick w)\<rparr>
      | Some p \<Rightarrow> w\<lparr>db := replaceById (completedTransfer env t rs results (tick w)) (db w)
                            @ snd (generateNextInstance env (Suc (tick w)) p),
                    tick := Suc (Suc (tick w)),
                    expanded := expanded w @ [p]\<rparr>))"
proof (cases results)
  case Nil
  with assms show ?thesis by simp
next
  case (Cons r rest)
  with assms show ?thesis
    by (simp add: finishSuccess_def io_defs save_def currentDate_def tickw_def
        callGenerateNextInstance_def completedTransfer_def Let_def
        split: option.splits prod.splits sum.splits)
qed

lemma tryBody_sends:
  assumes "storeFault env (tick w) = None" "stored w i = Some t" "status t = Scheduled"
    "checkAuthorization env (Suc (tick w)) (userAddress t) = Inr a" "isValid a"
    "\<not> numGt (totalAmount t (normalizedRecipients t)) (maxAmount a)"
    "storeFault env (Suc (Suc (tick w))) = None"
  shows "tryBody env i w =
    (let t0 = t\<lparr>status := Executing\<rparr>;
         rs = normalizedRecipients t;
         results = sendResults env t (tick w + 3);
         w3 = w\<lparr>db := replaceById t0 (db w), tick := tick w + 3 + length rs,
                sent := sent w @ callsFor t\<rparr>
     in if \<forall>r \<in> set results. rr_status r = Completed
        then finishSuccess env t0 rs results w3
        else (Inl (SendFailures (length (filter (\<lambda>r. rr_status r = Failed) results))
                     (length rs)), w3))"
proof -
  have fo: "fanout env (t\<lparr>status := Executing\<rparr>) (normalizedRecipients t)
              (normalizedRecipients t) [] True w' =
     ((sendResults env t (tick w'),
       \<forall>r \<in> set (sendResults env t (tick w')). rr_status r = Completed),
      w'\<lparr>tick := tick w' + length (normalizedRecipients t), sent := sent w' @ callsFor t\<rparr>)"
    for w'
    unfolding fanout_eq status_irrelevant all_completed_conv
    by (simp add: sendResults_def callsFor_def)
  show ?thesis
    using assms
    by (simp add: tryBody_def io_defs findById_def callCheckAuthorization_def tickw_def Let_def
        save_def fo eval_nat_numeral)
qed

subsection \<open>executeScheduledTransfer as a whole\<close>

lemma exec_fst:
  "fst (executeScheduledTransfer env i w) =
     (case fst (tryBody env i w) of
        Inl e \<Rightarrow> Inr (Failure e)
      | Inr (t, results) \<Rightarrow> Inr (Success t results))"
proof (cases "tryBody env i w")
  case (Pair x w1)
  show ?thesis
  proof (cases x)
    case (Inl e)
    with Pair show ?thesis
      using markFailed_result[of env i e w1]
      by (simp add: executeScheduledTransfer_def io_defs)
  next
    case (Inr p)
    with Pair show ?thesis
      by (cases p) (simp add: executeScheduledTransfer_def io_defs)
  qed
qed

lemma exec_snd:
  "snd (executeScheduledTransfer env i w) =
     (case tryBody env i w of
        (Inl e, w1) \<Rightarrow> snd (markFailed env i e w1)
      | (Inr p, w1) \<Rightarrow> w1)"
  by (simp add: executeScheduledTransfer_def io_defs split: prod.splits sum.splits)

lemma tryBody_fault:
  assumes "storeFault env (tick w) = Some m"
  shows "tryBody env i w = (Inl (External m), tickw w)"
  using assms by (simp add: tryBody_def io_defs findById_def)

lemma stored_frame:
  "stored (tickw w) i = stored w i"
  "stored (w\<lparr>tick := k\<rparr>) i = stored w i"
  "stored (w\<lparr>sent := s\<rparr>) i = stored w i"
  "stored (w\<lparr>expanded := x\<rparr>) i = stored w i"
  by (simp_all add: stored_def tickw_def)

lemma exec_of_failure:
  assumes "tryBody env i w = (Inl e, w1)" "stored w1 i = Some t"
    "storeFault env (tick w1) = None" "storeFault env (Suc (tick w1)) = None"
  shows "executeScheduledTransfer env i w =
    (Inr (Failure e),
     w1\<lparr>db := replaceById (t\<lparr>status := Failed, executedAt := Some (clock env (Suc (tick w1))),
                                 errorMessage := Some e\<rparr>) (db w1),
        tick := Suc (Suc (tick w1))\<rparr>)"
  using assms markFailed_ok[of env w1 i e]
  by (simp add: executeScheduledTransfer_def io_defs)

lemma stored_replace:
  "stored w i = Some t \<Longrightarrow> tid t' = tid t \<Longrightarrow> db w' = replaceById t' (db w) @ extra
     \<Longrightarrow> stored w' i = Some t'"
  using find_tid[of i "db w" t] find_replace[of t' i "db w"]
  by (simp add: stored_def replaceById_def find_append_Some)

lemma exec_invalid:
  assumes "\<forall>n. storeFault env n = None" "stored w i = Some t" "status t \<noteq> Scheduled"
  shows "executeScheduledTransfer env i w =
    (Inr (Failure (InvalidState (status t))),
     w\<lparr>db := replaceById (t\<lparr>status := Failed, executedAt := Some (clock env (tick w + 2)),
                                 errorMessage := Some (InvalidState (status t))\<rparr>) (db w),
       tick := tick w + 3\<rparr>)"
  using assms exec_of_failure[of env i w "InvalidState (status t)" "tickw w" t]
    tryBody_invalid[of env w i t]
  by (simp add: tickw_def eval_nat_numeral stored_frame)

lemma exec_exceeds:
  assumes "\<forall>n. storeFault env n = None" "stored w i = Some t" "status t = Scheduled"
    "checkAuthorization env (Suc (tick w)) (userAddress t) = Inr a" "isValid a"
    "numGt (totalAmount t (normalizedRecipients t)) (maxAmount a)"
  shows "executeScheduledTransfer env i w =
    (Inr (Failure (ExceedsAuthorization (totalAmount t (normalizedRecipients t)) (maxAmount a))),
     w\<lparr>db := replaceById (t\<lparr>status := Failed, executedAt := Some (clock env (tick w + 3)),
              errorMessage := Some (ExceedsAuthorization (totalAmount t (normalizedRecipients t)) (maxAmount a))\<rparr>) (db w),
       tick := tick w + 4\<rparr>)"
  using assms exec_of_failure[of env i w "ExceedsAuthorization (totalAmount t (normalizedRecipients t)) (maxAmount a)" "tickw (tickw w)" t]
    tryBody_exceeds[of env w i t a]
  by (simp add: tickw_def eval_nat_numeral stored_frame)

subsection \<open>A run that reaches the sends\<close>

lemma replace_replace:
  "tid a = tid b \<Longrightarrow> replaceById a (replaceById b xs) = replaceById a xs"
  by (induction xs) (simp_all add: replaceById_def)

lemma completedTransfer_status:
  "completedTransfer env (t\<lparr>status := s\<rparr>) rs results k = completedTransfer env t rs results k"
  by (simp add: completedTransfer_def Let_def)

lemma completedTransfer_tid: "tid (completedTransfer env t rs results k) = tid t"
  by (simp add: completedTransfer_def Let_def)

lemma exec_some_failed:
  assumes "\<forall>n. storeFault env n = None" "stored w i = Some t" "status t = Scheduled"
    "checkAuthorization env (Suc (tick w)) (userAddress t) = Inr a" "isValid a"
    "\<not> numGt (totalAmount t (normalizedRecipients t)) (maxAmount a)"
    "\<not> (\<forall>r \<in> set (sendResults env t (tick w + 3)). rr_status r = Completed)"
  shows "executeScheduledTransfer env i w =
    (let n = length (normalizedRecipients t);
         e = SendFailures (length (filter (\<lambda>r. rr_status r = Failed) (sendResults env t (tick w + 3)))) n
     in (Inr (Failure e),
         w\<lparr>db := replaceById (t\<lparr>status := Failed, executedAt := Some (clock env (tick w + 4 + n)),
                                  errorMessage := Some e\<rparr>) (db w),
           tick := tick w + 5 + n,
           sent := sent w @ callsFor t\<rparr>))"
proof -
  let ?n = "length (normalizedRecipients t)"
  let ?e = "SendFailures (length (filter (\<lambda>r. rr_status r = Failed) (sendResults env t (tick w + 3)))) ?n"
  let ?w3 = "w\<lparr>db := replaceById (t\<lparr>status := Executing\<rparr>) (db w), tick := tick w + 3 + ?n,
                sent := sent w @ callsFor t\<rparr>"
  have tb: "tryBody env i w = (Inl ?e, ?w3)"
    using tryBody_sends[of env w i t a] assms by (simp add: Let_def)
  have st: "stored ?w3 i = Some (t\<lparr>status := Executing\<rparr>)"
    using stored_replace[OF assms(2), of "t\<lparr>status := Executing\<rparr>" ?w3 "[]"] by simp
  show ?thesis
    using exec_of_failure[OF tb st] assms(1)
    by (simp add: Let_def replace_replace eval_nat_numeral)
qed

lemma exec_success:
  assumes "\<forall>n. storeFault env n = None" "stored w i = Some t" "status t = Scheduled"
    "checkAuthorization env (Suc (tick w)) (userAddress t) = Inr a" "isValid a"
    "\<not> numGt (totalAmount t (normalizedRecipients t)) (maxAmount a)"
    "\<forall>r \<in> set (sendResults env t (tick w + 3)). rr_status r = Completed"
  shows "executeScheduledTransfer env i w =
    (let n = length (normalizedRecipients t);
         results = sendResults env t (tick w + 3);
         t2 = completedTransfer env t (normalizedRecipients t) results (tick w + 3 + n)
     in (Inr (Success t2 results),
         (case parentRecurringId t of
            None \<Rightarrow> w\<lparr>db := replaceById t2 (db w), tick := tick w + 4 + n,
                       sent := sent w @ callsFor t\<rparr>
          | Some p \<Rightarrow> w\<lparr>db := replaceById t2 (db w) @ snd (generateNextInstance env (tick w + 4 + n) p),
                       tick := tick w + 5 + n,
                       sent := sent w @ callsFor t,
                       expanded := expanded w @ [p]\<rparr>)))"
proof -
  let ?n = "length (normalizedRecipients t)"
  let ?res = "sendResults env t (tick w + 3)"
  let ?w3 = "w\<lparr>db := replaceById (t\<lparr>status := Executing\<rparr>) (db w), tick := tick w + 3 + ?n,
                sent := sent w @ callsFor t\<rparr>"
  have ne: "?res \<noteq> []"
    using sendResults_length[of env t "tick w + 3"] normalizedRecipients_nonempty[of t]
    by (metis length_0_conv)
  have tb: "tryBody env i w = finishSuccess env (t\<lparr>status := Executing\<rparr>) (normalizedRecipients t) ?res ?w3"
    using tryBody_sends[of env w i t a] assms by (simp add: Let_def)
  have fs: "storeFault env (tick ?w3) = None" using assms(1) by simp
  show ?thesis
    unfolding executeScheduledTransfer_def io_defs tb finishSuccess_ok[OF fs ne]
    by (simp add: Let_def completedTransfer_status completedTransfer_tid replace_replace eval_nat_numeral
        split: option.splits)
qed

subsection \<open>What every run preserves\<close>

lemma finishSuccess_expanded:
  assumes "finishSuccess env t rs results w = (x, w1)"
  shows "sent w1 = sent w \<and>
     (case x of
        Inl e \<Rightarrow> expanded w1 = expanded w
      | Inr (t', res) \<Rightarrow>
          expanded w1 = expanded w @ (case parentRecurringId t' of None \<Rightarrow> [] | Some p \<Rightarrow> [p])
          \<and> status t' = Completed \<and> parentRecurringId t' = parentRecurringId t)"
proof (cases "length rs = 1 \<and> results = []")
  case True
  with assms show ?thesis
    by (auto simp: finishSuccess_def io_defs currentDate_def Let_def)
next
  case False
  show ?thesis
  proof (cases "storeFault env (tick w)")
    case (Some m)
    with assms False show ?thesis
      by (cases results)
         (auto simp: finishSuccess_def io_defs currentDate_def Let_def save_def tickw_def split: if_splits)
  next
    case None
    show ?thesis
    proof (cases "parentRecurringId t")
      case pn: None
      with assms False None show ?thesis
        by (cases results)
           (auto simp: finishSuccess_def io_defs currentDate_def Let_def save_def tickw_def split: if_splits)
    next
      case (Some p)
      with assms False None show ?thesis
        by (cases results; cases "generateNextInstance env (Suc (tick w)) p";
            cases "fst (generateNextInstance env (Suc (tick w)) p)")
           (auto simp: finishSuccess_def io_defs currentDate_def Let_def save_def tickw_def
              callGenerateNextInstance_def split: if_splits)
    qed
  qed
qed

lemma replaceById_frame: "u \<in> set xs \<Longrightarrow> tid u \<noteq> tid t \<Longrightarrow> u \<in> set (replaceById t xs)"
  by (induction xs) (auto simp: replaceById_def)

lemma finishSuccess_frame:
  assumes "finishSuccess env t rs results w = (x, w1)" "u \<in> set (db w)" "tid u \<noteq> tid t"
  shows "u \<in> set (db w1)"
proof (cases "length rs = 1 \<and> results = []")
  case True
  with assms show ?thesis
    by (auto simp: finishSuccess_def io_defs currentDate_def Let_def)
next
  case False
  show ?thesis
  proof (cases "storeFault env (tick w)")
    case (Some m)
    with assms False show ?thesis
      by (cases results)
         (auto simp: finishSuccess_def io_defs currentDate_def Let_def save_def tickw_def split: if_splits)
  next
    case None
    show ?thesis
    proof (cases "parentRecurringId t")
      case pn: None
      with assms False None show ?thesis
        by (cases results)
           (auto simp: finishSuccess_def io_defs currentDate_def Let_def save_def tickw_def
              replaceById_frame split: if_splits)
    next
      case (Some p)
      with assms False None show ?thesis
        by (cases results; cases "generateNextInstance env (Suc (tick w)) p";
            cases "fst (generateNextInstance env (Suc (tick w)) p)")
           (auto simp: finishSuccess_def io_defs currentDate_def Let_def save_def tickw_def
              callGenerateNextInstance_def replaceById_frame split: if_splits)
    qed
  qed
qed

lemma tryBody_general:
  assumes "tryBody env i w = (x, w1)"
  shows "outcomeOk w i x w1"
proof (cases "storeFault env (tick w)")
  case (Some m)
  with assms tryBody_fault[OF Some, of i] show ?thesis by (auto simp: tickw_def outcomeOk_def)
next
  case None
  show ?thesis
  proof (cases "stored w i")
    case sn: None
    with assms tryBody_notfound[OF None sn] show ?thesis by (auto simp: tickw_def outcomeOk_def)
  next
    case (Some t)
    then have ti: "tid t = i" using find_tid[of i "db w" t] by (simp add: stored_def)
    show ?thesis
    proof (cases "status t = Scheduled")
      case False
      with assms tryBody_invalid[OF None Some False] show ?thesis by (auto simp: tickw_def outcomeOk_def)
    next
      case True
      show ?thesis
      proof (cases "checkAuthorization env (Suc (tick w)) (userAddress t)")
        case (Inl m)
        with assms None Some True show ?thesis
          by (auto simp: tryBody_def io_defs findById_def callCheckAuthorization_def tickw_def outcomeOk_def)
      next
        case (Inr a)
        show ?thesis
        proof (cases "isValid a \<and> \<not> numGt (totalAmount t (normalizedRecipients t)) (maxAmount a)")
          case False
          with assms None Some True Inr show ?thesis
            by (auto simp: tryBody_def io_defs findById_def callCheckAuthorization_def tickw_def Let_def
                outcomeOk_def split: if_splits)
        next
          case ok: True
          show ?thesis
          proof (cases "storeFault env (Suc (Suc (tick w)))")
            case sf: (Some m)
            with assms None Some True Inr ok show ?thesis
              by (auto simp: tryBody_def io_defs findById_def callCheckAuthorization_def tickw_def Let_def
                  save_def outcomeOk_def split: if_splits)
          next
            case sn: None
            let ?w3 = "w\<lparr>db := replaceById (t\<lparr>status := Executing\<rparr>) (db w),
                          tick := tick w + 3 + length (normalizedRecipients t),
                          sent := sent w @ callsFor t\<rparr>"
            let ?res = "sendResults env t (tick w + 3)"
            show ?thesis
            proof (cases "\<forall>r \<in> set ?res. rr_status r = Completed")
              case allok: True
              have fs: "finishSuccess env (t\<lparr>status := Executing\<rparr>) (normalizedRecipients t) ?res ?w3 = (x, w1)"
                using tryBody_sends[OF None Some True Inr _ _ sn] ok assms allok by (simp add: Let_def)
              have "u \<in> set (db w1)" if "u \<in> set (db w)" "tid u \<noteq> i" for u
                using finishSuccess_frame[OF fs, of u] that ti by (simp add: replaceById_frame)
              moreover
              from finishSuccess_expanded[OF fs]
              have "(case x of
                       Inl e \<Rightarrow> expanded w1 = expanded w
                     | Inr (t', res) \<Rightarrow>
                         expanded w1 = expanded w @ (case parentRecurringId t' of None \<Rightarrow> [] | Some p \<Rightarrow> [p])
                         \<and> status t' = Completed)"
                by (auto split: sum.splits)
              ultimately show ?thesis by (simp add: outcomeOk_def)
            next
              case somefail: False
              have "x = Inl (SendFailures (length (filter (\<lambda>r. rr_status r = Failed) ?res))
                     (length (normalizedRecipients t))) \<and> w1 = ?w3"
                using tryBody_sends[OF None Some True Inr _ _ sn] ok assms somefail by (simp add: Let_def)
              then show ?thesis using ti by (auto simp: outcomeOk_def replaceById_frame)
            qed
          qed
        qed
      qed
    qed
  qed
qed

lemma markFailed_frame:
  assumes "u \<in> set (db w)" "tid u \<noteq> i"
  shows "u \<in> set (db (snd (markFailed env i e w)))"
proof (cases "stored w i")
  case None
  then show ?thesis using assms
    by (cases "storeFault env (tick w)")
       (auto simp: markFailed_def io_defs findById_def tickw_def)
next
  case (Some t)
  then have ti: "tid t = i" using find_tid[of i "db w" t] by (simp add: stored_def)
  show ?thesis using assms Some ti
    by (cases "storeFault env (tick w)"; cases "storeFault env (Suc (tick w))")
       (auto simp: markFailed_def io_defs findById_def save_def currentDate_def tickw_def
          replaceById_frame)
qed

lemma exec_general:
  assumes "executeScheduledTransfer env i w = (r, w')"
  shows "(\<forall>u \<in> set (db w). tid u \<noteq> i \<longrightarrow> u \<in> set (db w')) \<and>
     (case r of
        Inr (Success t' res) \<Rightarrow>
          expanded w' = expanded w @ (case parentRecurringId t' of None \<Rightarrow> [] | Some p \<Rightarrow> [p])
          \<and> status t' = Completed
      | Inr (Failure e) \<Rightarrow> expanded w' = expanded w
      | Inl e \<Rightarrow> False)"
proof (cases "tryBody env i w")
  case (Pair x w1)
  note g = tryBody_general[OF Pair, unfolded outcomeOk_def]
  show ?thesis
  proof (cases x)
    case (Inl e)
    with Pair assms have r: "r = fst (markFailed env i e w1)" and w': "w' = snd (markFailed env i e w1)"
      by (auto simp: executeScheduledTransfer_def io_defs)
    from r have "r = Inr (Failure e)" by (simp add: markFailed_result)
    moreover have "expanded w' = expanded w"
      using g Inl w' markFailed_logs[of env i e w1] by simp
    moreover have "u \<in> set (db w')" if "u \<in> set (db w)" "tid u \<noteq> i" for u
      using g that w' markFailed_frame[of u w1 i env e] by simp
    ultimately show ?thesis by simp
  next
    case (Inr p)
    with Pair assms g show ?thesis
      by (cases p) (auto simp: executeScheduledTransfer_def io_defs)
  qed
qed

subsection \<open>The result list\<close>

lemma sendResults_all_completed:
  assumes "\<forall>k r. r \<in> set (normalizedRecipients t) \<longrightarrow>
     (\<exists>res. executeOnChain env k (userAddress t) (address r)
              (recipientAmount t (normalizedRecipients t)) (retryLimit t) = Inr res \<and> success res)"
  shows "\<forall>x \<in> set (sendResults env t k). rr_status x = Completed"
proof
  fix x assume "x \<in> set (sendResults env t k)"
  then obtain j r where jr: "r \<in> set (normalizedRecipients t)"
      and x: "x = sendOutcome env t (normalizedRecipients t) j r"
    by (auto simp: sendResults_def dest: set_zip_rightD)
  from assms jr obtain res where
    "executeOnChain env j (userAddress t) (address r)
       (recipientAmount t (normalizedRecipients t)) (retryLimit t) = Inr res" "success res"
    by blast
  with x show "rr_status x = Completed" by (simp add: sendOutcome_def)
qed

lemma rr_recipient_sendOutcome: "rr_recipient (sendOutcome env t rs k r) = address r"
  by (simp add: sendOutcome_def split: sum.splits)


lemma exec_sent_after_checks:
  assumes "\<forall>n. storeFault env n = None" "stored w i = Some t" "status t = Scheduled"
    "checkAuthorization env (Suc (tick w)) (userAddress t) = Inr a" "isValid a"
    "\<not> numGt (totalAmount t (normalizedRecipients t)) (maxAmount a)"
  shows "sent (snd (executeScheduledTransfer env i w)) = sent w @ callsFor t"
proof (cases "\<forall>r \<in> set (sendResults env t (tick w + 3)). rr_status r = Completed")
  case True
  from exec_success[OF assms True] show ?thesis
    by (simp add: Let_def split: option.splits)
next
  case False
  from exec_some_failed[OF assms False] show ?thesis
    by (simp add: Let_def)
qed

lemma zip_upt_nth:
  "j < length xs \<Longrightarrow> zip [k..<k + length xs] xs ! j = (k + j, xs ! j)"
  by simp

subsection \<open>processDueTransfers\<close>

lemma exec_returns: "\<exists>r. fst (executeScheduledTransfer env i w) = Inr r"
  unfolding exec_fst by (auto split: sum.splits prod.splits)

lemma processLoop_general:
  "processLoop env ts acc w = (x, w') \<Longrightarrow>
     \<exists>res. x = Inr res \<and> length res = length acc + length ts \<and> take (length acc) res = acc
       \<and> map transferId res = map transferId acc @ map tid ts
       \<and> (\<forall>u \<in> set (db w). tid u \<notin> set (map tid ts) \<longrightarrow> u \<in> set (db w'))"
proof (induction ts arbitrary: acc w)
  case Nil
  then show ?case by auto
next
  case (Cons t ts)
  obtain r w1 where ex: "executeScheduledTransfer env (tid t) w = (Inr r, w1)"
    using exec_returns[of env "tid t" w] by (metis fst_conv surj_pair)
  let ?acc = "acc @ [\<lparr>transferId = tid t, be_title = title t, outcome = r\<rparr>]"
  from Cons.prems ex have "processLoop env ts ?acc w1 = (x, w')" by simp
  from Cons.IH[OF this] obtain res where res: "x = Inr res" "length res = length ?acc + length ts"
    "take (length ?acc) res = ?acc" "map transferId res = map transferId ?acc @ map tid ts"
    "\<forall>u \<in> set (db w1). tid u \<notin> set (map tid ts) \<longrightarrow> u \<in> set (db w')"
    by blast
  have fr: "\<forall>u \<in> set (db w). tid u \<noteq> tid t \<longrightarrow> u \<in> set (db w1)"
    using exec_general[OF ex] by blast
  have tk: "take (length acc) res = acc"
  proof -
    have "take (length acc) res = take (length acc) (take (length ?acc) res)" by (simp add: min_def)
    also have "\<dots> = acc" unfolding res(3) by simp
    finally show ?thesis .
  qed
  show ?case
    using res fr tk by (intro exI[of _ res]) auto
qed

lemma processDue_fault:
  "storeFault env (tick w) = Some m \<Longrightarrow> processDueTransfers env w = (Inl (External m), tickw w)"
  by (simp add: processDueTransfers_def io_defs currentDate_def findDue_def)

lemma processDue_ok:
  assumes "storeFault env (tick w) = None"
  shows "processDueTransfers env w =
    (let due = sort_key scheduledDate (filter (isDue (clock env (tick w))) (db w)) in
     if due = [] then (Inr (NoDue 0 ''No due transfers to process''), tickw w)
     else (case processLoop env due [] (tickw w) of
             (Inl e, w') \<Rightarrow> (Inl e, w')
           | (Inr results, w') \<Rightarrow>
               (Inr (Summary (length due)
                      (length (filter (\<lambda>r. isSuccess (outcome r)) results))
                      (length (filter (\<lambda>r. \<not> isSuccess (outcome r)) results)) results), w')))"
  using assms
  by (simp add: processDueTransfers_def io_defs currentDate_def findDue_def Let_def
      split: prod.splits sum.splits)

subsection \<open>Sequential execution of the due transfers\<close>

lemma processLoop_sequential:
  "processLoop env ts acc w = (Inr res, w') \<Longrightarrow>
     executeSequentially env (map tid ts) w = (map (\<lambda>e. Inr (outcome e)) (drop (length acc) res), w')"
proof (induction ts arbitrary: acc w)
  case Nil
  then show ?case by auto
next
  case (Cons t ts)
  obtain r w1 where ex: "executeScheduledTransfer env (tid t) w = (Inr r, w1)"
    using exec_returns[of env "tid t" w] by (metis fst_conv surj_pair)
  let ?e = "\<lparr>transferId = tid t, be_title = title t, outcome = r\<rparr>"
  let ?acc = "acc @ [?e]"
  from Cons.prems ex have pl: "processLoop env ts ?acc w1 = (Inr res, w')" by simp
  from processLoop_general[OF pl] have len: "length res = length ?acc + length ts"
    and tk: "take (length ?acc) res = ?acc" by auto
  from len have lt: "length acc < length res" by simp
  have "res ! length acc = take (length ?acc) res ! length acc" by simp
  also have "\<dots> = ?e" unfolding tk by simp
  finally have nth: "res ! length acc = ?e" .
  have dr: "drop (length acc) res = ?e # drop (length ?acc) res"
    using Cons_nth_drop_Suc[OF lt] nth by simp
  from Cons.IH[OF pl] ex show ?case by (simp add: dr)
qed

lemma tryBody_auth_throws:
  assumes "storeFault env (tick w) = None" "stored w i = Some t" "status t = Scheduled"
    "checkAuthorization env (Suc (tick w)) (userAddress t) = Inl m"
  shows "tryBody env i w = (Inl (External m), tickw (tickw w))"
  using assms
  by (simp add: tryBody_def io_defs findById_def callCheckAuthorization_def tickw_def)

lemma tryBody_unauthorized:
  assumes "storeFault env (tick w) = None" "stored w i = Some t" "status t = Scheduled"
    "checkAuthorization env (Suc (tick w)) (userAddress t) = Inr a" "\<not> isValid a"
  shows "tryBody env i w = (Inl Unauthorized, tickw (tickw w))"
  using assms
  by (simp add: tryBody_def io_defs findById_def callCheckAuthorization_def tickw_def)

lemma exec_check_failed:
  assumes "\<forall>n. storeFault env n = None" "stored w i = Some t"
    "tryBody env i w = (Inl e, tickw (tickw w))"
  shows "executeScheduledTransfer env i w =
    (Inr (Failure e),
     w\<lparr>db := replaceById (t\<lparr>status := Failed, executedAt := Some (clock env (tick w + 3)),
                                errorMessage := Some e\<rparr>) (db w),
       tick := tick w + 4\<rparr>)"
  using assms exec_of_failure[of env i w e "tickw (tickw w)" t]
  by (simp add: tickw_def eval_nat_numeral stored_frame)

lemma exec_scheduled_outcome:
  assumes "\<forall>n. storeFault env n = None" "stored w i = Some t" "status t = Scheduled"
  shows "\<exists>r t' extra. fst (executeScheduledTransfer env i w) = Inr r
     \<and> db (snd (executeScheduledTransfer env i w)) = replaceById t' (db w) @ extra
     \<and> tid t' = tid t
     \<and> status t' = (if isSuccess r then Completed else Failed)"
proof (cases "checkAuthorization env (Suc (tick w)) (userAddress t)")
  case (Inl m)
  from exec_check_failed[OF assms(1,2) tryBody_auth_throws[OF _ assms(2,3) Inl]] assms(1)
  show ?thesis
    by (intro exI[of _ "Failure (External m)"]
          exI[of _ "t\<lparr>status := Failed, executedAt := Some (clock env (tick w + 3)),
                      errorMessage := Some (External m)\<rparr>"] exI[of _ "[]"])
       (simp add: isSuccess_def)
next
  case (Inr a)
  show ?thesis
  proof (cases "isValid a")
    case False
    from exec_check_failed[OF assms(1,2) tryBody_unauthorized[OF _ assms(2,3) Inr False]] assms(1)
    show ?thesis
      by (intro exI[of _ "Failure Unauthorized"]
            exI[of _ "t\<lparr>status := Failed, executedAt := Some (clock env (tick w + 3)),
                        errorMessage := Some Unauthorized\<rparr>"] exI[of _ "[]"])
         (simp add: isSuccess_def)
  next
    case True
    show ?thesis
    proof (cases "numGt (totalAmount t (normalizedRecipients t)) (maxAmount a)")
      case ex: True
      let ?e = "ExceedsAuthorization (totalAmount t (normalizedRecipients t)) (maxAmount a)"
      from exec_exceeds[OF assms Inr True ex]
      show ?thesis
        by (intro exI[of _ "Failure ?e"]
              exI[of _ "t\<lparr>status := Failed, executedAt := Some (clock env (tick w + 3)),
                          errorMessage := Some ?e\<rparr>"] exI[of _ "[]"])
           (simp add: isSuccess_def)
    next
      case ok: False
      let ?n = "length (normalizedRecipients t)"
      let ?res = "sendResults env t (tick w + 3)"
      show ?thesis
      proof (cases "\<forall>r \<in> set ?res. rr_status r = Completed")
        case allok: True
        let ?t2 = "completedTransfer env t (normalizedRecipients t) ?res (tick w + 3 + ?n)"
        have st: "status ?t2 = Completed" by (simp add: completedTransfer_def Let_def)
        from exec_success[OF assms Inr True ok allok]
        have "fst (executeScheduledTransfer env i w) = Inr (Success ?t2 ?res)"
          and "\<exists>extra. db (snd (executeScheduledTransfer env i w)) = replaceById ?t2 (db w) @ extra"
          by (auto simp: Let_def split: option.splits)
        then show ?thesis using st
          by (auto simp: isSuccess_def completedTransfer_tid)
      next
        case somefail: False
        let ?e = "SendFailures (length (filter (\<lambda>r. rr_status r = Failed) ?res)) ?n"
        from exec_some_failed[OF assms Inr True ok somefail]
        show ?thesis
          by (intro exI[of _ "Failure ?e"]
                exI[of _ "t\<lparr>status := Failed, executedAt := Some (clock env (tick w + 4 + ?n)),
                            errorMessage := Some ?e\<rparr>"] exI[of _ "[]"])
             (simp add: isSuccess_def Let_def)
      qed
    qed
  qed
qed

lemma find_replace_other:
  "tid t' \<noteq> k \<Longrightarrow> find (\<lambda>x. tid x = k) (replaceById t' xs) = find (\<lambda>x. tid x = k) xs"
  by (induction xs) (auto simp: replaceById_def)

lemma stored_other:
  assumes "db w' = replaceById t' (db w) @ extra" "k \<noteq> tid t'" "stored w k = Some u"
  shows "stored w' k = Some u"
  using assms find_replace_other[of t' k "db w"]
  by (simp add: stored_def find_append_Some)

lemma stored_of_member:
  "distinct (map tid xs) \<Longrightarrow> t \<in> set xs \<Longrightarrow> find (\<lambda>x. tid x = tid t) xs = Some t"
  by (induction xs) (auto simp: image_iff)

lemma processLoop_statuses:
  assumes "\<forall>n. storeFault env n = None"
  shows "distinct (map tid ts) \<Longrightarrow>
     \<forall>t \<in> set ts. stored w (tid t) = Some t \<and> status t = Scheduled \<Longrightarrow>
     processLoop env ts acc w = (Inr res, w') \<Longrightarrow>
     (\<forall>e \<in> set (drop (length acc) res).
         \<exists>t'. stored w' (transferId e) = Some t'
            \<and> status t' = (if isSuccess (outcome e) then Completed else Failed))
     \<and> (\<forall>k u. k \<notin> set (map tid ts) \<longrightarrow> stored w k = Some u \<longrightarrow> stored w' k = Some u)"
proof (induction ts arbitrary: acc w)
  case Nil
  then show ?case by auto
next
  case (Cons t ts)
  have st: "stored w (tid t) = Some t" and sc: "status t = Scheduled" using Cons.prems(2) by auto
  obtain x w1 where xw: "executeScheduledTransfer env (tid t) w = (x, w1)" by (metis surj_pair)
  from exec_scheduled_outcome[OF assms st sc] xw obtain r t' extra where
    ex: "executeScheduledTransfer env (tid t) w = (Inr r, w1)"
    and o: "db w1 = replaceById t' (db w) @ extra"
       "tid t' = tid t" "status t' = (if isSuccess r then Completed else Failed)"
    by auto
  let ?e = "\<lparr>transferId = tid t, be_title = title t, outcome = r\<rparr>"
  let ?acc = "acc @ [?e]"
  from Cons.prems(3) ex have pl: "processLoop env ts ?acc w1 = (Inr res, w')" by simp
  have d: "distinct (map tid ts)" and nt: "tid t \<notin> set (map tid ts)" using Cons.prems(1) by auto
  have keep: "stored w1 k = Some u" if "k \<noteq> tid t" "stored w k = Some u" for k u
    using stored_other[OF o(1)] that o(2) by simp
  have pre: "\<forall>u \<in> set ts. stored w1 (tid u) = Some u \<and> status u = Scheduled"
  proof
    fix u assume u: "u \<in> set ts"
    with nt have "tid u \<noteq> tid t" by (metis imageI list.set_map)
    moreover from u Cons.prems(2) have "stored w (tid u) = Some u" "status u = Scheduled" by auto
    ultimately show "stored w1 (tid u) = Some u \<and> status u = Scheduled" using keep by blast
  qed
  note ih = Cons.IH[OF d pre pl]
  have t1: "stored w1 (tid t) = Some t'"
    using stored_replace[OF st _ o(1)] o(2) by simp
  with ih nt have tfin: "stored w' (tid t) = Some t'" by blast
  from processLoop_general[OF pl] have len: "length res = length ?acc + length ts"
    and tk: "take (length ?acc) res = ?acc" by auto
  from len have lt: "length acc < length res" by simp
  have "res ! length acc = take (length ?acc) res ! length acc" by simp
  also have "\<dots> = ?e" unfolding tk by simp
  finally have nth: "res ! length acc = ?e" .
  have dr: "drop (length acc) res = ?e # drop (length ?acc) res"
    using Cons_nth_drop_Suc[OF lt] nth by simp
  have a: "\<forall>e \<in> set (drop (length acc) res).
         \<exists>t'. stored w' (transferId e) = Some t'
            \<and> status t' = (if isSuccess (outcome e) then Completed else Failed)"
    unfolding dr using ih tfin o(3) by auto
  have b: "\<forall>k u. k \<notin> set (map tid (t # ts)) \<longrightarrow> stored w k = Some u \<longrightarrow> stored w' k = Some u"
    using ih keep by auto
  from a b show ?case by blast
qed

subsection \<open>JavaScript arithmetic at some values\<close>

lemma number_examples:
  "lit (1 / 10) = Finite (3602879701896397 / 36028797018963968)"
  "lit (3 / 10) = Finite (5404319552844595 / 18014398509481984)"
  "numMul (lit (1 / 10)) (ofNat 3) = Finite (1351079888211149 / 4503599627370496)"
  "numGt (numMul (lit (1 / 10)) (ofNat 3)) (lit (3 / 10))"
  "numMul (lit (1 / 100)) (ofNat 3) = lit (3 / 100)"
  "numDiv (Finite 10) (ofNat 3) = Finite (7505999378950827 / 2251799813685248)"
  "numDiv (Finite 30) (ofNat 3) = Finite 10"
  "numMul (Finite 10) (ofNat 2) = Finite 20"
  by code_simp+

lemma number_special_examples:
  "numMul PosInf (Finite 0) = NaN"
  "numDiv (Finite 1) NegZero = NegInf"
  "numDiv NegZero (ofNat 3) = NegZero"
  "\<not> numGt (Finite 0) NegZero"
  "\<not> numGt NaN (Finite 1)"
  "numGt PosInf (Finite 1)"
  by code_simp+

subsection \<open>The example data\<close>

lemma okEnv_simps:
  "storeFault okEnv n = None"
  "checkAuthorization okEnv n u = Inr \<lparr>isValid = True, maxAmount = Finite 100\<rparr>"
  "executeOnChain okEnv n u r a l = Inr \<lparr>success = True, sr_transactionId = Some (''tx_'' @ r), sr_error = None\<rparr>"
  "generateNextInstance okEnv n p = (None, [])"
  "clock okEnv n = 1000 + int n"
  by (simp_all add: okEnv_def)

lemma lowLimitEnv_simps:
  "storeFault lowLimitEnv n = None"
  "checkAuthorization lowLimitEnv n u = Inr \<lparr>isValid = True, maxAmount = Finite 15\<rparr>"
  "clock lowLimitEnv n = 1000 + int n"
  by (simp_all add: lowLimitEnv_def okEnv_def)

lemma failBEnv_simps:
  "storeFault failBEnv n = None"
  "checkAuthorization failBEnv n u = Inr \<lparr>isValid = True, maxAmount = Finite 100\<rparr>"
  "executeOnChain failBEnv n u r a l =
     (if r = ''0xB''
      then Inr \<lparr>success = False, sr_transactionId = None, sr_error = Some ''rejected''\<rparr>
      else Inr \<lparr>success = True, sr_transactionId = Some (''tx_'' @ r), sr_error = None\<rparr>)"
  "clock failBEnv n = 1000 + int n"
  by (simp_all add: failBEnv_def okEnv_def)

lemma throwingExpanderEnv_simps:
  "storeFault throwingExpanderEnv n = None"
  "checkAuthorization throwingExpanderEnv n u = Inr \<lparr>isValid = True, maxAmount = Finite 100\<rparr>"
  "executeOnChain throwingExpanderEnv n u r a l =
     Inr \<lparr>success = True, sr_transactionId = Some (''tx_'' @ r), sr_error = None\<rparr>"
  "generateNextInstance throwingExpanderEnv n p = (Some ''expander down'', [])"
  by (simp_all add: throwingExpanderEnv_def okEnv_def)

lemma mkTransfer_simps:
  "tid (mkTransfer i d as x per) = i"
  "userAddress (mkTransfer i d as x per) = ''0xUSER''"
  "status (mkTransfer i d as x per) = Scheduled"
  "retryLimit (mkTransfer i d as x per) = 3"
  "amount (mkTransfer i d as x per) = x"
  "amountPerRecipient (mkTransfer i d as x per) = per"
  "scheduledDate (mkTransfer i d as x per) = d"
  "recipients (mkTransfer i d as x per) = map (\<lambda>a. \<lparr>address = a\<rparr>) as"
  "transactionIds (mkTransfer i d as x per) = []"
  "parentRecurringId (mkTransfer i d as x per) = None"
  by (simp_all add: mkTransfer_def)

lemma stored_mkWorld_single: "tid t = i \<Longrightarrow> stored (mkWorld [t]) i = Some t"
  by (simp add: stored_def mkWorld_def)

lemma mkWorld_simps:
  "db (mkWorld ts) = ts" "tick (mkWorld ts) = 0" "sent (mkWorld ts) = []" "expanded (mkWorld ts) = []"
  by (simp_all add: mkWorld_def)

lemma throwBEnv_simps:
  "executeOnChain throwBEnv n u r a l =
     (if r = ''0xB'' then Inl ''timeout''
      else Inr \<lparr>success = True, sr_transactionId = Some (''tx_'' @ r), sr_error = None\<rparr>)"
  by (simp add: throwBEnv_def okEnv_def)

lemma downEnv_simps: "storeFault downEnv n = Some ''store down''"
  by (simp add: downEnv_def okEnv_def)

lemma list3: "length xs = 3 \<Longrightarrow> xs = [xs ! 0, xs ! 1, xs ! 2]"
  by (cases xs; cases "tl xs"; cases "tl (tl xs)") (auto simp: eval_nat_numeral)

lemma all_fail_run:
  "fst (processDueTransfers lowLimitEnv perRecipientWorld) =
     Inr (Summary 1 0 1 [\<lparr>transferId = ''t1'', be_title = ''transfer t1'',
                           outcome = Failure (ExceedsAuthorization (Finite 20) (Finite 15))\<rparr>])"
  by code_simp

lemma dueWorld_run:
  "sent (snd (processDueTransfers okEnv dueWorld))
     = [(''0xUSER'', ''0xA'', Finite 5, 3), (''0xUSER'', ''0xB'', Finite 6, 3)]
   \<and> map (\<lambda>t. (tid t, status t)) (db (snd (processDueTransfers okEnv dueWorld)))
     = [(''t_minus5'', Completed), (''t_plus5'', Scheduled), (''t_minus10'', Completed)]"
  by code_simp

section \<open>The claims\<close>

subsection \<open>C1: Exceeding the authorization\<close>

text \<open>
  C1 (as amended). For a stored transfer in status \<open>Scheduled\<close> whose authorization is valid
  but whose total amount exceeds \<open>maxAmount\<close>, with a store that does not fail:
  \<^verbatim>\<open>executeScheduledTransfer\<close> returns the failure "exceeds authorized maximum", makes no
  call to the chain executor and none to the recurrence expander, and the catch handler
  reloads the record and stores it with status \<open>Failed\<close>, \<open>executedAt\<close> set and the error as
  \<open>errorMessage\<close>. The record does not stay \<open>Scheduled\<close>.
\<close>

theorem exceedsAuthorization_marks_failed:
  assumes "\<forall>n. storeFault env n = None"
    and "stored w i = Some t" and "status t = Scheduled"
    and "checkAuthorization env (Suc (tick w)) (userAddress t) = Inr a" and "isValid a"
    and "numGt (totalAmount t (normalizedRecipients t)) (maxAmount a)"
    and "executeScheduledTransfer env i w = (r, w')"
  shows "r = Inr (Failure (ExceedsAuthorization (totalAmount t (normalizedRecipients t)) (maxAmount a)))
    \<and> sent w' = sent w \<and> expanded w' = expanded w
    \<and> (\<exists>d. stored w' i =
           Some (t\<lparr>status := Failed, executedAt := Some d,
                   errorMessage := Some (ExceedsAuthorization
                     (totalAmount t (normalizedRecipients t)) (maxAmount a))\<rparr>))"
proof -
  let ?e = "ExceedsAuthorization (totalAmount t (normalizedRecipients t)) (maxAmount a)"
  let ?t' = "t\<lparr>status := Failed, executedAt := Some (clock env (tick w + 3)), errorMessage := Some ?e\<rparr>"
  from exec_exceeds[OF assms(1-6)] assms(7)
  have r: "r = Inr (Failure ?e)" and w': "w' = w\<lparr>db := replaceById ?t' (db w), tick := tick w + 4\<rparr>"
    by simp_all
  have "stored w' i = Some ?t'"
    using stored_replace[OF assms(2), of ?t' w' "[]"] w' by simp
  with r w' show ?thesis by auto
qed

theorem exceedsAuthorization_marks_failed_witness:
  "stored perRecipientWorld ''t1'' = Some (mkTransfer ''t1'' 0 [''0xA'', ''0xB''] (Finite 10) True)
   \<and> sent (snd (executeScheduledTransfer lowLimitEnv ''t1'' perRecipientWorld)) = []
   \<and> fst (executeScheduledTransfer lowLimitEnv ''t1'' perRecipientWorld)
       = Inr (Failure (ExceedsAuthorization (Finite 20) (Finite 15)))"
proof -
  let ?t = "mkTransfer ''t1'' 0 [''0xA'', ''0xB''] (Finite 10) True"
  have h2: "stored perRecipientWorld ''t1'' = Some ?t"
    by (simp add: stored_def perRecipientWorld_def mkWorld_def mkTransfer_def)
  have h3: "status ?t = Scheduled" by (simp add: mkTransfer_def)
  have h4: "checkAuthorization lowLimitEnv (Suc (tick perRecipientWorld)) (userAddress ?t)
      = Inr \<lparr>isValid = True, maxAmount = Finite 15\<rparr>"
    by (simp add: lowLimitEnv_simps)
  have tot: "totalAmount ?t (normalizedRecipients ?t) = Finite 20"
    by code_simp
  have h6: "numGt (totalAmount ?t (normalizedRecipients ?t)) (maxAmount \<lparr>isValid = True, maxAmount = Finite 15\<rparr>)"
    by code_simp
  have h1: "\<forall>n. storeFault lowLimitEnv n = None" by (simp add: lowLimitEnv_simps)
  from exceedsAuthorization_marks_failed[OF h1 h2 h3 h4 _ h6 surjective_pairing]
  show ?thesis using h2 tot by (simp add: perRecipientWorld_def mkWorld_def)
qed

text \<open>
  C1 as stated fails on the specification's own scenario: amount 10 for each of two
  recipients against a limit of 15. The record is \<open>Scheduled\<close> before the call and
  \<open>Failed\<close> after it.
\<close>

theorem exceedsAuthorization_keeps_scheduled_counterexample:
  "map_option status (stored perRecipientWorld ''t1'') = Some Scheduled
   \<and> checkAuthorization lowLimitEnv (Suc (tick perRecipientWorld)) ''0xUSER''
       = Inr \<lparr>isValid = True, maxAmount = Finite 15\<rparr>
   \<and> totalAmount (mkTransfer ''t1'' 0 [''0xA'', ''0xB''] (Finite 10) True)
        (normalizedRecipients (mkTransfer ''t1'' 0 [''0xA'', ''0xB''] (Finite 10) True)) = Finite 20
   \<and> map_option status
        (stored (snd (executeScheduledTransfer lowLimitEnv ''t1'' perRecipientWorld)) ''t1'')
       = Some Failed"
proof -
  let ?t = "mkTransfer ''t1'' 0 [''0xA'', ''0xB''] (Finite 10) True"
  have h2: "stored perRecipientWorld ''t1'' = Some ?t"
    by (simp add: stored_def perRecipientWorld_def mkWorld_def mkTransfer_def)
  have h3: "status ?t = Scheduled" by (simp add: mkTransfer_def)
  have h4: "checkAuthorization lowLimitEnv (Suc (tick perRecipientWorld)) (userAddress ?t)
      = Inr \<lparr>isValid = True, maxAmount = Finite 15\<rparr>"
    by (simp add: lowLimitEnv_simps)
  have tot: "totalAmount ?t (normalizedRecipients ?t) = Finite 20"
    by code_simp
  have h6: "numGt (totalAmount ?t (normalizedRecipients ?t)) (maxAmount \<lparr>isValid = True, maxAmount = Finite 15\<rparr>)"
    by code_simp
  have h1: "\<forall>n. storeFault lowLimitEnv n = None" by (simp add: lowLimitEnv_simps)
  have "stored (snd (executeScheduledTransfer lowLimitEnv ''t1'' perRecipientWorld)) ''t1''
      = Some (?t\<lparr>status := Failed, executedAt := Some (clock lowLimitEnv (tick perRecipientWorld + 3)),
               errorMessage := Some (ExceedsAuthorization (totalAmount ?t (normalizedRecipients ?t)) (Finite 15))\<rparr>)"
    using exec_exceeds[OF h1 h2 h3 h4 _ h6]
    by (intro stored_replace[OF h2, where extra="[]"]) simp_all
  then show ?thesis using h2 h3 h4 tot by (simp add: mkTransfer_def)
qed

subsection \<open>C2: Transfers that are not scheduled\<close>

text \<open>
  C2 (as amended). For a stored transfer whose status is not \<open>Scheduled\<close>, with a store that
  does not fail: \<^verbatim>\<open>executeScheduledTransfer\<close> returns the invalid-state failure naming the
  status it found, calls neither the chain executor nor the recurrence expander, and the
  catch handler writes the record back with status \<open>Failed\<close>, \<open>executedAt\<close> set and the
  error as \<open>errorMessage\<close>; no other record of the collection changes.
\<close>

theorem nonScheduled_marks_failed:
  assumes "\<forall>n. storeFault env n = None"
    and "stored w i = Some t" and "status t \<noteq> Scheduled"
    and "executeScheduledTransfer env i w = (r, w')"
  shows "r = Inr (Failure (InvalidState (status t)))
    \<and> sent w' = sent w \<and> expanded w' = expanded w
    \<and> (\<exists>d. db w' = replaceById (t\<lparr>status := Failed, executedAt := Some d,
                   errorMessage := Some (InvalidState (status t))\<rparr>) (db w))"
  using exec_invalid[OF assms(1-3)] assms(4) by auto

theorem nonScheduled_marks_failed_witness:
  "map_option status (stored completedWorld ''t1'') = Some Completed
   \<and> fst (executeScheduledTransfer okEnv ''t1'' completedWorld)
       = Inr (Failure (InvalidState Completed))
   \<and> sent (snd (executeScheduledTransfer okEnv ''t1'' completedWorld)) = []"
proof -
  let ?t = "(mkTransfer ''t1'' 0 [''0xA''] (Finite 10) False)\<lparr>status := Completed\<rparr>"
  have h1: "\<forall>n. storeFault okEnv n = None" by (simp add: okEnv_simps)
  have h2: "stored completedWorld ''t1'' = Some ?t"
    by (simp add: stored_def completedWorld_def mkWorld_def mkTransfer_def)
  have h3: "status ?t \<noteq> Scheduled" by simp
  from nonScheduled_marks_failed[OF h1 h2 h3 surjective_pairing] h2
  show ?thesis by (simp add: completedWorld_def mkWorld_def)
qed

text \<open>
  C2 as stated fails: executing the id of a \<open>Completed\<close> transfer changes the collection,
  and the record is \<open>Failed\<close> afterwards.
\<close>

theorem nonScheduled_no_write_counterexample:
  "map_option status (stored completedWorld ''t1'') = Some Completed
   \<and> db (snd (executeScheduledTransfer okEnv ''t1'' completedWorld)) \<noteq> db completedWorld
   \<and> map_option status
        (stored (snd (executeScheduledTransfer okEnv ''t1'' completedWorld)) ''t1'')
       = Some Failed"
proof -
  let ?t = "(mkTransfer ''t1'' 0 [''0xA''] (Finite 10) False)\<lparr>status := Completed\<rparr>"
  have h1: "\<forall>n. storeFault okEnv n = None" by (simp add: okEnv_simps)
  have h2: "stored completedWorld ''t1'' = Some ?t"
    by (simp add: stored_def completedWorld_def mkWorld_def mkTransfer_def)
  have h3: "status ?t \<noteq> Scheduled" by simp
  have "db (snd (executeScheduledTransfer okEnv ''t1'' completedWorld))
      = [?t\<lparr>status := Failed, executedAt := Some (clock okEnv (tick completedWorld + 2)),
               errorMessage := Some (InvalidState Completed)\<rparr>]"
    using exec_invalid[OF h1 h2 h3]
    by (simp add: replaceById_def completedWorld_def mkWorld_def mkTransfer_def)
  then show ?thesis using h2
    by (simp add: stored_def completedWorld_def mkWorld_def mkTransfer_def)
qed

subsection \<open>C3: Partial failure\<close>

text \<open>
  C3 (as amended). For a stored \<open>Scheduled\<close> transfer that passes the authorization checks,
  with a store that does not fail and at least one recipient whose send does not complete:
  \<^verbatim>\<open>executeScheduledTransfer\<close> returns the failure "Some transfers failed: k/n", every
  recipient has been sent to exactly once and in list order (nothing is rolled back, no
  compensating send is made), the expander is not called, and the stored record is the
  original one with status \<open>Failed\<close>, \<open>executedAt\<close> and \<open>errorMessage\<close> set. The result
  records are not persisted: \<open>transactionIds\<close> and \<open>transactionId\<close> of the stored record are
  what they were before the call.
\<close>

theorem partial_failure_marks_failed:
  assumes "\<forall>n. storeFault env n = None"
    and "stored w i = Some t" and "status t = Scheduled"
    and "checkAuthorization env (Suc (tick w)) (userAddress t) = Inr a" and "isValid a"
    and "\<not> numGt (totalAmount t (normalizedRecipients t)) (maxAmount a)"
    and "\<exists>x \<in> set (sendResults env t (tick w + 3)). rr_status x \<noteq> Completed"
    and "executeScheduledTransfer env i w = (r, w')"
  shows "r = Inr (Failure (SendFailures
                 (length (filter (\<lambda>x. rr_status x = Failed) (sendResults env t (tick w + 3))))
                 (length (normalizedRecipients t))))
    \<and> sent w' = sent w @ callsFor t \<and> expanded w' = expanded w
    \<and> (\<exists>d. stored w' i =
           Some (t\<lparr>status := Failed, executedAt := Some d,
                   errorMessage := Some (SendFailures
                     (length (filter (\<lambda>x. rr_status x = Failed) (sendResults env t (tick w + 3))))
                     (length (normalizedRecipients t)))\<rparr>))
    \<and> map_option transactionIds (stored w' i) = Some (transactionIds t)
    \<and> map_option transactionId (stored w' i) = Some (transactionId t)"
proof -
  let ?n = "length (normalizedRecipients t)"
  let ?e = "SendFailures (length (filter (\<lambda>x. rr_status x = Failed) (sendResults env t (tick w + 3)))) ?n"
  let ?t' = "t\<lparr>status := Failed, executedAt := Some (clock env (tick w + 4 + ?n)), errorMessage := Some ?e\<rparr>"
  from assms(7) have nf: "\<not> (\<forall>x \<in> set (sendResults env t (tick w + 3)). rr_status x = Completed)"
    by blast
  from exec_some_failed[OF assms(1-6) nf] assms(8)
  have r: "r = Inr (Failure ?e)"
    and w': "w' = w\<lparr>db := replaceById ?t' (db w), tick := tick w + 5 + ?n, sent := sent w @ callsFor t\<rparr>"
    by (simp_all add: Let_def)
  have st: "stored w' i = Some ?t'"
    using stored_replace[OF assms(2), of ?t' w' "[]"] w' by simp
  show ?thesis using r w' st by auto
qed

theorem partial_failure_marks_failed_witness:
  "(\<exists>x \<in> set (sendResults failBEnv (mkTransfer ''t1'' 0 [''0xA'', ''0xB''] (Finite 30) False)
                 (tick twoWorld + 3)). rr_status x \<noteq> Completed)
   \<and> fst (executeScheduledTransfer failBEnv ''t1'' twoWorld) = Inr (Failure (SendFailures 1 2))
   \<and> map_option status (stored (snd (executeScheduledTransfer failBEnv ''t1'' twoWorld)) ''t1'')
       = Some Failed"
proof -
  let ?t = "mkTransfer ''t1'' 0 [''0xA'', ''0xB''] (Finite 30) False"
  have h1: "\<forall>n. storeFault failBEnv n = None" by (simp add: failBEnv_simps)
  have h2: "stored twoWorld ''t1'' = Some ?t"
    unfolding twoWorld_def by (rule stored_mkWorld_single) (simp add: mkTransfer_simps)
  have h3: "status ?t = Scheduled" by (simp add: mkTransfer_simps)
  have h4: "checkAuthorization failBEnv (Suc (tick twoWorld)) (userAddress ?t)
      = Inr \<lparr>isValid = True, maxAmount = Finite 100\<rparr>"
    by (simp add: failBEnv_simps)
  have nr: "normalizedRecipients ?t = [\<lparr>address = ''0xA''\<rparr>, \<lparr>address = ''0xB''\<rparr>]"
    by (simp add: normalizedRecipients_def mkTransfer_simps)
  have h6: "\<not> numGt (totalAmount ?t (normalizedRecipients ?t)) (maxAmount \<lparr>isValid = True, maxAmount = Finite 100\<rparr>)"
    by code_simp
  have sr: "sendResults failBEnv ?t (tick twoWorld + 3) =
      [\<lparr>rr_recipient = ''0xA'', rr_transactionId = Some ''tx_0xA'', rr_status = Completed, rr_error = None\<rparr>,
       \<lparr>rr_recipient = ''0xB'', rr_transactionId = None, rr_status = Failed,
        rr_error = Some (External ''rejected'')\<rparr>]"
    by (simp add: sendResults_def sendOutcome_def nr failBEnv_simps twoWorld_def mkWorld_simps
        upt_rec[of 3] upt_rec[of 4] upt_rec[of 5])
  have h7: "\<exists>x \<in> set (sendResults failBEnv ?t (tick twoWorld + 3)). rr_status x \<noteq> Completed"
    by (simp add: sr)
  from partial_failure_marks_failed[OF h1 h2 h3 h4 _ h6 h7 surjective_pairing]
  show ?thesis using h7 by (auto simp: sr nr)
qed

text \<open>
  C3 as stated fails: 30 split over \<open>0xA\<close> and \<open>0xB\<close>, where the send to \<open>0xA\<close> succeeds
  with transaction id \<open>tx_0xA\<close> and the send to \<open>0xB\<close> is rejected. Both sends are made, the
  record ends \<open>Failed\<close>, and its stored result list is empty: the id \<open>tx_0xA\<close> is not in it.
\<close>

theorem partial_failure_keeps_ids_counterexample:
  "executeOnChain failBEnv 3 ''0xUSER'' ''0xA'' (Finite 15) 3
     = Inr \<lparr>success = True, sr_transactionId = Some ''tx_0xA'', sr_error = None\<rparr>
   \<and> sent (snd (executeScheduledTransfer failBEnv ''t1'' twoWorld))
       = [(''0xUSER'', ''0xA'', Finite 15, 3), (''0xUSER'', ''0xB'', Finite 15, 3)]
   \<and> map_option status (stored (snd (executeScheduledTransfer failBEnv ''t1'' twoWorld)) ''t1'')
       = Some Failed
   \<and> map_option transactionIds
        (stored (snd (executeScheduledTransfer failBEnv ''t1'' twoWorld)) ''t1'') = Some []"
proof -
  let ?t = "mkTransfer ''t1'' 0 [''0xA'', ''0xB''] (Finite 30) False"
  have h1: "\<forall>n. storeFault failBEnv n = None" by (simp add: failBEnv_simps)
  have h2: "stored twoWorld ''t1'' = Some ?t"
    unfolding twoWorld_def by (rule stored_mkWorld_single) (simp add: mkTransfer_simps)
  have h3: "status ?t = Scheduled" by (simp add: mkTransfer_simps)
  have h4: "checkAuthorization failBEnv (Suc (tick twoWorld)) (userAddress ?t)
      = Inr \<lparr>isValid = True, maxAmount = Finite 100\<rparr>"
    by (simp add: failBEnv_simps)
  have nr: "normalizedRecipients ?t = [\<lparr>address = ''0xA''\<rparr>, \<lparr>address = ''0xB''\<rparr>]"
    by (simp add: normalizedRecipients_def mkTransfer_simps)
  have h6: "\<not> numGt (totalAmount ?t (normalizedRecipients ?t)) (maxAmount \<lparr>isValid = True, maxAmount = Finite 100\<rparr>)"
    by code_simp
  have sr: "sendResults failBEnv ?t (tick twoWorld + 3) =
      [\<lparr>rr_recipient = ''0xA'', rr_transactionId = Some ''tx_0xA'', rr_status = Completed, rr_error = None\<rparr>,
       \<lparr>rr_recipient = ''0xB'', rr_transactionId = None, rr_status = Failed,
        rr_error = Some (External ''rejected'')\<rparr>]"
    by (simp add: sendResults_def sendOutcome_def nr failBEnv_simps twoWorld_def mkWorld_simps
        upt_rec[of 3] upt_rec[of 4] upt_rec[of 5])
  have h7: "\<not> (\<forall>x \<in> set (sendResults failBEnv ?t (tick twoWorld + 3)). rr_status x = Completed)"
    by (simp add: sr)
  have cf: "callsFor ?t = [(''0xUSER'', ''0xA'', Finite 15, 3), (''0xUSER'', ''0xB'', Finite 15, 3)]"
    by code_simp
  note ex = exec_some_failed[OF h1 h2 h3 h4 _ h6 h7, simplified Let_def]
  have w': "snd (executeScheduledTransfer failBEnv ''t1'' twoWorld) =
      twoWorld\<lparr>db := replaceById (?t\<lparr>status := Failed,
                 executedAt := Some (clock failBEnv (tick twoWorld + 4 + length (normalizedRecipients ?t))),
                 errorMessage := Some (SendFailures
                   (length (filter (\<lambda>r. rr_status r = Failed) (sendResults failBEnv ?t (tick twoWorld + 3))))
                   (length (normalizedRecipients ?t)))\<rparr>) (db twoWorld),
               tick := tick twoWorld + 5 + length (normalizedRecipients ?t),
               sent := sent twoWorld @ callsFor ?t\<rparr>"
    using ex by simp
  have st: "stored (snd (executeScheduledTransfer failBEnv ''t1'' twoWorld)) ''t1'' =
      Some (?t\<lparr>status := Failed,
                 executedAt := Some (clock failBEnv (tick twoWorld + 4 + length (normalizedRecipients ?t))),
                 errorMessage := Some (SendFailures
                   (length (filter (\<lambda>r. rr_status r = Failed) (sendResults failBEnv ?t (tick twoWorld + 3))))
                   (length (normalizedRecipients ?t)))\<rparr>)"
    by (rule stored_replace[OF h2, where extra="[]"]) (simp_all add: w')
  have s0: "sent twoWorld = []" by (simp add: twoWorld_def mkWorld_simps)
  have se: "sent (snd (executeScheduledTransfer failBEnv ''t1'' twoWorld))
       = [(''0xUSER'', ''0xA'', Finite 15, 3), (''0xUSER'', ''0xB'', Finite 15, 3)]"
    by (simp add: w' cf s0)
  show ?thesis
    by (simp add: st se failBEnv_simps mkTransfer_simps)
qed

subsection \<open>C4: Full success\<close>



subsection \<open>C5: Total and per-recipient amounts\<close>

text \<open>
  C5. For a stored \<open>Scheduled\<close> transfer with a valid authorization and a store that does not
  fail, let \<open>rs\<close> be the normalized recipient list. The amount compared with \<open>maxAmount\<close> is
  \<open>amount * length rs\<close> when \<open>amountPerRecipient\<close> is set and \<open>amount\<close> otherwise: when it
  is greater than \<open>maxAmount\<close> the call fails with that total and sends nothing. Otherwise the
  chain executor is called once per recipient, in list order, with \<open>amount\<close> when the flag is
  set and \<open>amount / length rs\<close> otherwise. Here \<open>*\<close>, \<open>/\<close> and \<open>>\<close> are the operations of
  JavaScript numbers (\<open>numMul\<close>, \<open>numDiv\<close>, \<open>numGt\<close>), so the products and quotients are the
  rounded ones.
\<close>

theorem amounts_total_and_per_recipient:
  assumes "\<forall>n. storeFault env n = None"
    and "stored w i = Some t" and "status t = Scheduled"
    and "checkAuthorization env (Suc (tick w)) (userAddress t) = Inr a" and "isValid a"
    and "rs = normalizedRecipients t"
    and "tot = (if amountPerRecipient t then numMul (amount t) (ofNat (length rs)) else amount t)"
    and "each = (if amountPerRecipient t then amount t else numDiv (amount t) (ofNat (length rs)))"
    and "executeScheduledTransfer env i w = (r, w')"
  shows "if numGt tot (maxAmount a)
         then r = Inr (Failure (ExceedsAuthorization tot (maxAmount a))) \<and> sent w' = sent w
         else sent w' = sent w @ map (\<lambda>x. (userAddress t, address x, each, retryLimit t)) rs"
proof (cases "numGt tot (maxAmount a)")
  case True
  then have ex: "numGt (totalAmount t (normalizedRecipients t)) (maxAmount a)"
    using assms(6,7) by (auto simp: totalAmount_def)
  from exec_exceeds[OF assms(1-5) ex] assms(6,7,9) True show ?thesis
    by (auto simp: totalAmount_def)
next
  case False
  then have ok: "\<not> numGt (totalAmount t (normalizedRecipients t)) (maxAmount a)"
    using assms(6,7) by (auto simp: totalAmount_def)
  from exec_sent_after_checks[OF assms(1-5) ok] assms(6,8,9) False show ?thesis
    by (auto simp: callsFor_def recipientAmount_def)
qed

text \<open>
  Two instances. 30 split over three recipients against a limit of 100: the check uses 30
  and each recipient is sent 10. And 0.1 for each of three recipients against a limit of
  0.3: the product is the number 0.30000000000000004, which is greater than the number
  0.3, so the call fails and nothing is sent.
\<close>

theorem amounts_total_and_per_recipient_witness:
  "stored splitWorld ''t1'' = Some (mkTransfer ''t1'' 0 [''0xA'', ''0xB'', ''0xC''] (Finite 30) False)
   \<and> \<not> numGt (Finite 30) (Finite 100)
   \<and> sent (snd (executeScheduledTransfer okEnv ''t1'' splitWorld))
       = [(''0xUSER'', ''0xA'', Finite 10, 3), (''0xUSER'', ''0xB'', Finite 10, 3),
          (''0xUSER'', ''0xC'', Finite 10, 3)]
   \<and> numMul (lit (1 / 10)) (ofNat 3) = Finite (1351079888211149 / 4503599627370496)
   \<and> lit (3 / 10) = Finite (5404319552844595 / 18014398509481984)
   \<and> fst (executeScheduledTransfer tenthEnv ''t1'' tenthWorld)
       = Inr (Failure (ExceedsAuthorization (numMul (lit (1 / 10)) (ofNat 3)) (lit (3 / 10))))
   \<and> sent (snd (executeScheduledTransfer tenthEnv ''t1'' tenthWorld)) = []"
proof -
  let ?t = "mkTransfer ''t1'' 0 [''0xA'', ''0xB'', ''0xC''] (Finite 30) False"
  let ?rs = "[\<lparr>address = ''0xA''\<rparr>, \<lparr>address = ''0xB''\<rparr>, \<lparr>address = ''0xC''\<rparr>]"
  have h1: "\<forall>n. storeFault okEnv n = None" by (simp add: okEnv_simps)
  have h2: "stored splitWorld ''t1'' = Some ?t"
    unfolding splitWorld_def by (rule stored_mkWorld_single) (simp add: mkTransfer_simps)
  have h3: "status ?t = Scheduled" by (simp add: mkTransfer_simps)
  have h4: "checkAuthorization okEnv (Suc (tick splitWorld)) (userAddress ?t)
      = Inr \<lparr>isValid = True, maxAmount = Finite 100\<rparr>"
    by (simp add: okEnv_simps)
  have h5: "isValid \<lparr>isValid = True, maxAmount = Finite 100\<rparr>" by simp
  have h6: "?rs = normalizedRecipients ?t"
    by (simp add: normalizedRecipients_def mkTransfer_simps)
  have h7: "Finite 30 =
      (if amountPerRecipient ?t then numMul (amount ?t) (ofNat (length ?rs)) else amount ?t)"
    by (simp add: mkTransfer_simps)
  have d: "numDiv (Finite 30) (ofNat (length ?rs)) = Finite 10" by code_simp
  have h8: "Finite 10 =
      (if amountPerRecipient ?t then amount ?t else numDiv (amount ?t) (ofNat (length ?rs)))"
    by (simp only: mkTransfer_simps if_False d)
  have g: "\<not> numGt (Finite 30) (Finite 100)" by code_simp
  have s0: "sent splitWorld = []" by (simp add: splitWorld_def mkWorld_simps)
  from amounts_total_and_per_recipient[OF h1 h2 h3 h4 h5 h6 h7 h8 surjective_pairing] g
  have one: "sent (snd (executeScheduledTransfer okEnv ''t1'' splitWorld))
       = [(''0xUSER'', ''0xA'', Finite 10, 3), (''0xUSER'', ''0xB'', Finite 10, 3),
          (''0xUSER'', ''0xC'', Finite 10, 3)]"
    using s0 by (simp add: mkTransfer_simps)
  let ?u = "mkTransfer ''t1'' 0 [''0xA'', ''0xB'', ''0xC''] (lit (1 / 10)) True"
  have k1: "\<forall>n. storeFault tenthEnv n = None" by (simp add: tenthEnv_def okEnv_def)
  have k2: "stored tenthWorld ''t1'' = Some ?u"
    unfolding tenthWorld_def by (rule stored_mkWorld_single) (simp add: mkTransfer_simps)
  have k3: "status ?u = Scheduled" by (simp add: mkTransfer_simps)
  have k4: "checkAuthorization tenthEnv (Suc (tick tenthWorld)) (userAddress ?u)
      = Inr \<lparr>isValid = True, maxAmount = lit (3 / 10)\<rparr>"
    by (simp add: tenthEnv_def okEnv_def)
  have k5: "isValid \<lparr>isValid = True, maxAmount = lit (3 / 10)\<rparr>" by simp
  have k6: "?rs = normalizedRecipients ?u"
    by (simp add: normalizedRecipients_def mkTransfer_simps)
  have l3: "length ?rs = 3" by simp
  have k7: "numMul (lit (1 / 10)) (ofNat 3) =
      (if amountPerRecipient ?u then numMul (amount ?u) (ofNat (length ?rs)) else amount ?u)"
    by (simp only: mkTransfer_simps if_True l3)
  have k8: "lit (1 / 10) =
      (if amountPerRecipient ?u then amount ?u else numDiv (amount ?u) (ofNat (length ?rs)))"
    by (simp add: mkTransfer_simps)
  have kg: "numGt (numMul (lit (1 / 10)) (ofNat 3)) (lit (3 / 10))" by code_simp
  have v1: "numMul (lit (1 / 10)) (ofNat 3) = Finite (1351079888211149 / 4503599627370496)"
    by code_simp
  have v2: "lit (3 / 10) = Finite (5404319552844595 / 18014398509481984)"
    by code_simp
  have t0: "sent tenthWorld = []" by (simp add: tenthWorld_def mkWorld_simps)
  from amounts_total_and_per_recipient[OF k1 k2 k3 k4 k5 k6 k7 k8 surjective_pairing] kg
  have two: "fst (executeScheduledTransfer tenthEnv ''t1'' tenthWorld)
       = Inr (Failure (ExceedsAuthorization (numMul (lit (1 / 10)) (ofNat 3)) (lit (3 / 10))))"
    "sent (snd (executeScheduledTransfer tenthEnv ''t1'' tenthWorld)) = []"
    using t0 by simp_all
  from h2 g one v1 v2 two show ?thesis by blast
qed

subsection \<open>C6: The recipient loop\<close>

text \<open>
  C6. The recipient loop, for every environment (every pattern of thrown errors and of
  unsuccessful results): it visits every recipient still to do, whatever the earlier sends
  did; it appends exactly one result record per recipient, in list order, after the records
  accumulated so far; when the call for a recipient throws, the record is a \<open>Failed\<close> record
  with the error's message and no transaction id, and when it returns, the record carries
  the transaction id, the error, and \<open>Completed\<close> or \<open>Failed\<close> according to \<open>success\<close>; and
  the flag \<open>allSuccessful\<close> is true at the end exactly when it was true before and every
  new record is \<open>Completed\<close>.
\<close>

theorem fanout_all_attempted:
  assumes "fanout env t rs todo acc ok w = ((res, ok'), w')"
  shows "length res = length acc + length todo \<and> take (length acc) res = acc
    \<and> map rr_recipient (drop (length acc) res) = map address todo
    \<and> sent w' = sent w @ map (\<lambda>x. (userAddress t, address x, recipientAmount t rs, retryLimit t)) todo
    \<and> (\<forall>j < length todo.
          res ! (length acc + j) =
            (case executeOnChain env (tick w + j) (userAddress t) (address (todo ! j))
                    (recipientAmount t rs) (retryLimit t) of
               Inl m \<Rightarrow> \<lparr>rr_recipient = address (todo ! j), rr_transactionId = None,
                          rr_status = Failed, rr_error = Some (External m)\<rparr>
             | Inr s \<Rightarrow> \<lparr>rr_recipient = address (todo ! j),
                          rr_transactionId = sr_transactionId s,
                          rr_status = (if success s then Completed else Failed),
                          rr_error = map_option External (sr_error s)\<rparr>))
    \<and> (ok' \<longleftrightarrow> ok \<and> (\<forall>j < length todo. rr_status (res ! (length acc + j)) = Completed))"
proof -
  let ?zs = "zip [tick w..<tick w + length todo] todo"
  let ?new = "map (\<lambda>(k, r). sendOutcome env t rs k r) ?zs"
  from assms have res: "res = acc @ ?new"
    and ok': "ok' = (ok \<and> (\<forall>x \<in> set ?zs. rr_status (sendOutcome env t rs (fst x) (snd x)) = Completed))"
    and w': "sent w' = sent w @ map (\<lambda>x. (userAddress t, address x, recipientAmount t rs, retryLimit t)) todo"
    by (auto simp: fanout_eq)
  have len: "length ?new = length todo" by simp
  have nth: "?new ! j = sendOutcome env t rs (tick w + j) (todo ! j)" if "j < length todo" for j
    using that by simp
  have rec: "map rr_recipient ?new = map address todo"
  proof (rule nth_equalityI)
    show "length (map rr_recipient ?new) = length (map address todo)" by simp
  next
    fix j assume "j < length (map rr_recipient ?new)"
    then have "j < length todo" by simp
    then show "map rr_recipient ?new ! j = map address todo ! j"
      by (simp add: rr_recipient_sendOutcome)
  qed
  have okc: "(\<forall>x \<in> set ?zs. rr_status (sendOutcome env t rs (fst x) (snd x)) = Completed)
      = (\<forall>j < length todo. rr_status (?new ! j) = Completed)"
  proof
    assume a: "\<forall>x \<in> set ?zs. rr_status (sendOutcome env t rs (fst x) (snd x)) = Completed"
    show "\<forall>j < length todo. rr_status (?new ! j) = Completed"
    proof (intro allI impI)
      fix j assume j: "j < length todo"
      then have "?zs ! j \<in> set ?zs" by (intro nth_mem) simp
      with a j show "rr_status (?new ! j) = Completed" by (fastforce simp: nth)
    qed
  next
    assume b: "\<forall>j < length todo. rr_status (?new ! j) = Completed"
    show "\<forall>x \<in> set ?zs. rr_status (sendOutcome env t rs (fst x) (snd x)) = Completed"
    proof
      fix x assume "x \<in> set ?zs"
      then obtain j where j: "j < length ?zs" and x: "x = ?zs ! j" by (metis in_set_conv_nth)
      then have jl: "j < length todo" by simp
      with b have "rr_status (?new ! j) = Completed" by blast
      with jl x show "rr_status (sendOutcome env t rs (fst x) (snd x)) = Completed" by (simp add: nth)
    qed
  qed
  have c1: "length res = length acc + length todo" and c2: "take (length acc) res = acc"
    and c3: "map rr_recipient (drop (length acc) res) = map address todo"
    using res rec by simp_all
  have c5: "\<forall>j < length todo.
          res ! (length acc + j) =
            (case executeOnChain env (tick w + j) (userAddress t) (address (todo ! j))
                    (recipientAmount t rs) (retryLimit t) of
               Inl m \<Rightarrow> \<lparr>rr_recipient = address (todo ! j), rr_transactionId = None,
                          rr_status = Failed, rr_error = Some (External m)\<rparr>
             | Inr s \<Rightarrow> \<lparr>rr_recipient = address (todo ! j),
                          rr_transactionId = sr_transactionId s,
                          rr_status = (if success s then Completed else Failed),
                          rr_error = map_option External (sr_error s)\<rparr>)"
    using nth by (simp add: res nth_append sendOutcome_def)
  have c6: "ok' \<longleftrightarrow> ok \<and> (\<forall>j < length todo. rr_status (res ! (length acc + j)) = Completed)"
    unfolding ok' okc by (simp add: res nth_append)
  from c1 c2 c3 w' c5 c6 show ?thesis by blast
qed

theorem fanout_all_attempted_witness:
  "map rr_status (fst (fst (fanout throwBEnv (mkTransfer ''t1'' 0 [''0xA'', ''0xB'', ''0xC''] (Finite 30) False)
       [\<lparr>address = ''0xA''\<rparr>, \<lparr>address = ''0xB''\<rparr>, \<lparr>address = ''0xC''\<rparr>]
       [\<lparr>address = ''0xA''\<rparr>, \<lparr>address = ''0xB''\<rparr>, \<lparr>address = ''0xC''\<rparr>] [] True (mkWorld []))))
     = [Completed, Failed, Completed]
   \<and> map rr_recipient (fst (fst (fanout throwBEnv (mkTransfer ''t1'' 0 [''0xA'', ''0xB'', ''0xC''] (Finite 30) False)
       [\<lparr>address = ''0xA''\<rparr>, \<lparr>address = ''0xB''\<rparr>, \<lparr>address = ''0xC''\<rparr>]
       [\<lparr>address = ''0xA''\<rparr>, \<lparr>address = ''0xB''\<rparr>, \<lparr>address = ''0xC''\<rparr>] [] True (mkWorld []))))
     = [''0xA'', ''0xB'', ''0xC'']
   \<and> sent (snd (fanout throwBEnv (mkTransfer ''t1'' 0 [''0xA'', ''0xB'', ''0xC''] (Finite 30) False)
       [\<lparr>address = ''0xA''\<rparr>, \<lparr>address = ''0xB''\<rparr>, \<lparr>address = ''0xC''\<rparr>]
       [\<lparr>address = ''0xA''\<rparr>, \<lparr>address = ''0xB''\<rparr>, \<lparr>address = ''0xC''\<rparr>] [] True (mkWorld [])))
     = [(''0xUSER'', ''0xA'', Finite 10, 3), (''0xUSER'', ''0xB'', Finite 10, 3), (''0xUSER'', ''0xC'', Finite 10, 3)]"
proof -
  let ?t = "mkTransfer ''t1'' 0 [''0xA'', ''0xB'', ''0xC''] (Finite 30) False"
  let ?rs = "[\<lparr>address = ''0xA''\<rparr>, \<lparr>address = ''0xB''\<rparr>, \<lparr>address = ''0xC''\<rparr>]"
  let ?X = "fanout throwBEnv ?t ?rs ?rs [] True (mkWorld [])"
  let ?res = "fst (fst ?X)"
  have eq: "?X = ((?res, snd (fst ?X)), snd ?X)" by simp
  note T = fanout_all_attempted[OF eq]
  from T have len: "length ?res = 3" by simp
  from T have nth: "\<forall>j<3. ?res ! j =
            (case executeOnChain throwBEnv (tick (mkWorld []) + j) (userAddress ?t) (address (?rs ! j))
                    (recipientAmount ?t ?rs) (retryLimit ?t) of
               Inl m \<Rightarrow> \<lparr>rr_recipient = address (?rs ! j), rr_transactionId = None,
                          rr_status = Failed, rr_error = Some (External m)\<rparr>
             | Inr s \<Rightarrow> \<lparr>rr_recipient = address (?rs ! j),
                          rr_transactionId = sr_transactionId s,
                          rr_status = (if success s then Completed else Failed),
                          rr_error = map_option External (sr_error s)\<rparr>)"
    by simp
  have r0: "rr_status (?res ! 0) = Completed" "rr_recipient (?res ! 0) = ''0xA''"
    using nth[rule_format, of 0] by (simp_all add: throwBEnv_simps)
  have r1: "rr_status (?res ! 1) = Failed" "rr_recipient (?res ! 1) = ''0xB''"
    using nth[rule_format, of 1] by (simp_all add: throwBEnv_simps)
  have r2: "rr_status (?res ! 2) = Completed" "rr_recipient (?res ! 2) = ''0xC''"
    using nth[rule_format, of 2] by (simp_all add: throwBEnv_simps)
  have st: "map rr_status ?res = [Completed, Failed, Completed]"
    and rc: "map rr_recipient ?res = [''0xA'', ''0xB'', ''0xC'']"
    using r0 r1 r2 by (subst list3[OF len], simp)+
  have ra: "recipientAmount ?t ?rs = Finite 10" by code_simp
  from T have "sent (snd ?X) = sent (mkWorld []) @
      map (\<lambda>x. (userAddress ?t, address x, recipientAmount ?t ?rs, retryLimit ?t)) ?rs"
    by blast
  then have se: "sent (snd ?X) =
      [(''0xUSER'', ''0xA'', Finite 10, 3), (''0xUSER'', ''0xB'', Finite 10, 3), (''0xUSER'', ''0xC'', Finite 10, 3)]"
    using ra by (simp add: mkWorld_simps mkTransfer_simps)
  from st rc se show ?thesis by blast
qed

subsection \<open>C7: Selection and order of due transfers\<close>

text \<open>
  C7. When the query of the store succeeds and the ids of the collection are distinct, let
  \<open>now\<close> be the clock at the start and \<open>due\<close> the records with status \<open>Scheduled\<close> and
  \<open>scheduledDate \<le> now\<close>, sorted by \<open>scheduledDate\<close> (ascending, ties in collection order).
  \<^verbatim>\<open>processDueTransfers\<close> returns a summary whose entries carry exactly the ids of \<open>due\<close>
  in that order. What it does to the world after the query is exactly to call
  \<^verbatim>\<open>executeScheduledTransfer\<close> on the ids of \<open>due\<close> one after the other in that order:
  the outcomes of the entries are what these calls returned and the final world is the one
  the last call left (\<open>executeSequentially\<close>). \<open>due\<close> is sorted and holds exactly the due
  records. A record that is not due (in particular one scheduled in the future) is not
  among the executed ids and is in the collection afterwards unchanged, so a future
  \<open>Scheduled\<close> record stays \<open>Scheduled\<close>. And when the store does not fail, every executed
  transfer has left status \<open>Scheduled\<close>: its stored record is \<open>Completed\<close> when its entry
  reports success and \<open>Failed\<close> otherwise.
\<close>

theorem processDueTransfers_selects_due_in_order:
  assumes "storeFault env (tick w) = None"
    and "distinct (map tid (db w))"
    and "now = clock env (tick w)"
    and "due = sort_key scheduledDate
                 (filter (\<lambda>t. status t = Scheduled \<and> scheduledDate t \<le> now) (db w))"
    and "processDueTransfers env w = (r, w')"
  shows "\<exists>s. r = Inr s
    \<and> map transferId (entries s) = map tid due
    \<and> executeSequentially env (map tid due) (tickw w)
        = (map (\<lambda>e. Inr (outcome e)) (entries s), w')
    \<and> sorted (map scheduledDate due)
    \<and> set due = {t \<in> set (db w). status t = Scheduled \<and> scheduledDate t \<le> now}
    \<and> (\<forall>t \<in> set (db w). \<not> (status t = Scheduled \<and> scheduledDate t \<le> now) \<longrightarrow>
          tid t \<notin> set (map transferId (entries s)) \<and> t \<in> set (db w'))
    \<and> ((\<forall>n. storeFault env n = None) \<longrightarrow>
         (\<forall>e \<in> set (entries s).
            \<exists>t'. stored w' (transferId e) = Some t'
               \<and> status t' = (if isSuccess (outcome e) then Completed else Failed)))"
proof -
  have due': "due = sort_key scheduledDate (filter (isDue (clock env (tick w))) (db w))"
    using assms(3,4) by (simp add: isDue_def[abs_def])
  have sd: "set due = {t \<in> set (db w). status t = Scheduled \<and> scheduledDate t \<le> now}"
    using assms(4) by auto
  have so: "sorted (map scheduledDate due)" using assms(4) by simp
  have notin: "tid t \<notin> set (map tid due)"
    if "t \<in> set (db w)" "\<not> (status t = Scheduled \<and> scheduledDate t \<le> now)" for t
  proof
    assume "tid t \<in> set (map tid due)"
    then obtain u where u: "u \<in> set due" "tid u = tid t" by auto
    with sd have "u \<in> set (db w)" by blast
    with assms(2) that(1) u(2) have "u = t"
      by (auto simp: distinct_map inj_on_def)
    with u(1) sd that(2) show False by blast
  qed
  show ?thesis
  proof (cases "due = []")
    case True
    with processDue_ok[OF assms(1)] due' assms(5)
    have "r = Inr (NoDue 0 ''No due transfers to process'')" "w' = tickw w"
      by (simp_all add: Let_def)
    then show ?thesis using True sd so
      by (intro exI[of _ "NoDue 0 ''No due transfers to process''"]) (simp add: entries_def tickw_def)
  next
    case False
    obtain x w1 where pl: "processLoop env due [] (tickw w) = (x, w1)" by (metis surj_pair)
    from processLoop_general[OF pl] obtain res where res: "x = Inr res"
      "map transferId res = map tid due"
      "\<forall>u \<in> set (db (tickw w)). tid u \<notin> set (map tid due) \<longrightarrow> u \<in> set (db w1)"
      by auto
    let ?s = "Summary (length due) (length (filter (\<lambda>r. isSuccess (outcome r)) res))
                (length (filter (\<lambda>r. \<not> isSuccess (outcome r)) res)) res"
    from processDue_ok[OF assms(1)] due' assms(5) False pl res(1)
    have r: "r = Inr ?s" and w': "w' = w1"
      by (simp_all add: Let_def)
    have pl': "processLoop env due [] (tickw w) = (Inr res, w')" using pl res(1) w' by simp
    have sq: "executeSequentially env (map tid due) (tickw w)
        = (map (\<lambda>e. Inr (outcome e)) (entries ?s), w')"
      using processLoop_sequential[OF pl'] by (simp add: entries_def)
    have fr: "\<forall>t \<in> set (db w). \<not> (status t = Scheduled \<and> scheduledDate t \<le> now) \<longrightarrow>
          tid t \<notin> set (map transferId (entries ?s)) \<and> t \<in> set (db w')"
      using notin res(2,3) w' by (simp add: entries_def tickw_def)
    have stt: "\<forall>e \<in> set (entries ?s).
            \<exists>t'. stored w' (transferId e) = Some t'
               \<and> status t' = (if isSuccess (outcome e) then Completed else Failed)"
      if ok: "\<forall>n. storeFault env n = None"
    proof -
      have dd: "distinct due" using assms(2,4) by (simp add: distinct_map)
      have inj: "inj_on tid (set (db w))" using assms(2) by (simp add: distinct_map)
      have sub: "set due \<subseteq> set (db w)" using sd by blast
      have d1: "distinct (map tid due)"
        using dd inj sub by (auto simp: distinct_map intro: inj_on_subset)
      have d2: "\<forall>t \<in> set due. stored (tickw w) (tid t) = Some t \<and> status t = Scheduled"
        using sd stored_of_member[OF assms(2)] by (auto simp: stored_def tickw_def)
      from processLoop_statuses[OF ok d1 d2 pl'] show ?thesis
        by (simp add: entries_def)
    qed
    from r res(2) sq so sd fr stt show ?thesis
      by (intro exI[of _ ?s]) (simp add: entries_def)
  qed
qed

theorem processDueTransfers_selects_due_in_order_witness:
  "distinct (map tid (db dueWorld))
   \<and> clock okEnv (tick dueWorld) = 1000
   \<and> (\<forall>n. storeFault okEnv n = None)
   \<and> (\<exists>s. fst (processDueTransfers okEnv dueWorld) = Inr s
          \<and> map transferId (entries s) = [''t_minus10'', ''t_minus5'']
          \<and> executeSequentially okEnv [''t_minus10'', ''t_minus5''] (tickw dueWorld)
              = (map (\<lambda>e. Inr (outcome e)) (entries s), snd (processDueTransfers okEnv dueWorld))
          \<and> (\<forall>e \<in> set (entries s).
                \<exists>t'. stored (snd (processDueTransfers okEnv dueWorld)) (transferId e) = Some t'
                   \<and> status t' = (if isSuccess (outcome e) then Completed else Failed)))
   \<and> mkTransfer ''t_plus5'' 1005 [''0xC''] (Finite 7) False
        \<in> set (db (snd (processDueTransfers okEnv dueWorld)))
   \<and> sent (snd (processDueTransfers okEnv dueWorld))
       = [(''0xUSER'', ''0xA'', Finite 5, 3), (''0xUSER'', ''0xB'', Finite 6, 3)]
   \<and> map (\<lambda>t. (tid t, status t)) (db (snd (processDueTransfers okEnv dueWorld)))
       = [(''t_minus5'', Completed), (''t_plus5'', Scheduled), (''t_minus10'', Completed)]"
proof -
  let ?a = "mkTransfer ''t_minus10'' 990 [''0xA''] (Finite 5) False"
  let ?b = "mkTransfer ''t_minus5'' 995 [''0xB''] (Finite 6) False"
  let ?c = "mkTransfer ''t_plus5'' 1005 [''0xC''] (Finite 7) False"
  let ?W = "snd (processDueTransfers okEnv dueWorld)"
  have dbw: "db dueWorld = [?b, ?c, ?a]" by (simp add: dueWorld_def mkWorld_simps)
  have h1: "storeFault okEnv (tick dueWorld) = None" by (simp add: okEnv_simps)
  have h0: "\<forall>n. storeFault okEnv n = None" by (simp add: okEnv_simps)
  have h2: "distinct (map tid (db dueWorld))" by (simp add: dbw mkTransfer_simps)
  have h3: "(1000::int) = clock okEnv (tick dueWorld)"
    by (simp add: okEnv_simps dueWorld_def mkWorld_simps)
  have h4: "[?a, ?b] = sort_key scheduledDate
      (filter (\<lambda>t. status t = Scheduled \<and> scheduledDate t \<le> 1000) (db dueWorld))"
    by (simp add: dbw mkTransfer_simps)
  have nd: "\<not> (status ?c = Scheduled \<and> scheduledDate ?c \<le> 1000)" by (simp add: mkTransfer_simps)
  have cin: "?c \<in> set (db dueWorld)" by (simp add: dbw)
  from processDueTransfers_selects_due_in_order[OF h1 h2 h3 h4 surjective_pairing]
  obtain s where s: "fst (processDueTransfers okEnv dueWorld) = Inr s"
      "map transferId (entries s) = map tid [?a, ?b]"
      "executeSequentially okEnv (map tid [?a, ?b]) (tickw dueWorld)
        = (map (\<lambda>e. Inr (outcome e)) (entries s), ?W)"
      "\<forall>t \<in> set (db dueWorld). \<not> (status t = Scheduled \<and> scheduledDate t \<le> 1000) \<longrightarrow>
          tid t \<notin> set (map transferId (entries s)) \<and> t \<in> set (db ?W)"
      "(\<forall>n. storeFault okEnv n = None) \<longrightarrow>
         (\<forall>e \<in> set (entries s).
            \<exists>t'. stored ?W (transferId e) = Some t'
               \<and> status t' = (if isSuccess (outcome e) then Completed else Failed))"
    by blast
  from s(4) cin nd have c: "?c \<in> set (db ?W)" by blast
  from s(2) have ids: "map transferId (entries s) = [''t_minus10'', ''t_minus5'']"
    by (simp add: mkTransfer_simps)
  from s(3) have sq: "executeSequentially okEnv [''t_minus10'', ''t_minus5''] (tickw dueWorld)
        = (map (\<lambda>e. Inr (outcome e)) (entries s), ?W)"
    by (simp add: mkTransfer_simps)
  from s(5) h0 have stt: "\<forall>e \<in> set (entries s).
            \<exists>t'. stored ?W (transferId e) = Some t'
               \<and> status t' = (if isSuccess (outcome e) then Completed else Failed)"
    by blast
  have "\<exists>s. fst (processDueTransfers okEnv dueWorld) = Inr s
          \<and> map transferId (entries s) = [''t_minus10'', ''t_minus5'']
          \<and> executeSequentially okEnv [''t_minus10'', ''t_minus5''] (tickw dueWorld)
              = (map (\<lambda>e. Inr (outcome e)) (entries s), ?W)
          \<and> (\<forall>e \<in> set (entries s).
                \<exists>t'. stored ?W (transferId e) = Some t'
                   \<and> status t' = (if isSuccess (outcome e) then Completed else Failed))"
    using s(1) ids sq stt by - (rule exI[of _ s], intro conjI, assumption+)
  with h2 h3 h0 c dueWorld_run show ?thesis by simp
qed

subsection \<open>C8: The summary of a run\<close>

text \<open>
  C8 (as amended). For every environment: when the query of the store throws, the error
  is propagated to the caller. When it succeeds, \<^verbatim>\<open>processDueTransfers\<close> returns and never
  throws, whatever happens to the individual transfers: with no due transfer it returns
  \<^verbatim>\<open>{processed: 0, message: 'No due transfers to process'}\<close> (no \<open>successful\<close>, \<open>failed\<close> or
  \<open>results\<close> field), and with at least one it returns
  \<^verbatim>\<open>{processed, successful, failed, results}\<close> with one entry per due transfer, in order,
  \<open>processed\<close> the number of due transfers and \<open>successful + failed = processed\<close>.
\<close>

theorem processDueTransfers_summary:
  "(storeFault env (tick w) = Some m \<longrightarrow> fst (processDueTransfers env w) = Inl (External m))
   \<and> (storeFault env (tick w) = None \<longrightarrow>
       (let due = sort_key scheduledDate
                    (filter (\<lambda>t. status t = Scheduled \<and> scheduledDate t \<le> clock env (tick w)) (db w))
        in if due = []
           then fst (processDueTransfers env w) = Inr (NoDue 0 ''No due transfers to process'')
           else \<exists>results.
                  fst (processDueTransfers env w) =
                    Inr (Summary (length due)
                           (length (filter (\<lambda>e. isSuccess (outcome e)) results))
                           (length (filter (\<lambda>e. \<not> isSuccess (outcome e)) results)) results)
                  \<and> map transferId results = map tid due
                  \<and> length (filter (\<lambda>e. isSuccess (outcome e)) results)
                      + length (filter (\<lambda>e. \<not> isSuccess (outcome e)) results) = length due))"
proof (intro conjI impI)
  assume "storeFault env (tick w) = Some m"
  then show "fst (processDueTransfers env w) = Inl (External m)"
    by (simp add: processDue_fault)
next
  assume ok: "storeFault env (tick w) = None"
  let ?due = "sort_key scheduledDate
                (filter (\<lambda>t. status t = Scheduled \<and> scheduledDate t \<le> clock env (tick w)) (db w))"
  have due': "?due = sort_key scheduledDate (filter (isDue (clock env (tick w))) (db w))"
    by (simp add: isDue_def[abs_def])
  have "if ?due = []
        then fst (processDueTransfers env w) = Inr (NoDue 0 ''No due transfers to process'')
        else \<exists>results.
               fst (processDueTransfers env w) =
                 Inr (Summary (length ?due)
                        (length (filter (\<lambda>e. isSuccess (outcome e)) results))
                        (length (filter (\<lambda>e. \<not> isSuccess (outcome e)) results)) results)
               \<and> map transferId results = map tid ?due
               \<and> length (filter (\<lambda>e. isSuccess (outcome e)) results)
                   + length (filter (\<lambda>e. \<not> isSuccess (outcome e)) results) = length ?due"
  proof (cases "?due = []")
    case True
    with processDue_ok[OF ok] due' show ?thesis by (simp add: Let_def)
  next
    case False
    obtain x w1 where pl: "processLoop env ?due [] (tickw w) = (x, w1)" by (metis surj_pair)
    from processLoop_general[OF pl] obtain res where res: "x = Inr res"
      "length res = length ?due" "map transferId res = map tid ?due"
      by auto
    have "fst (processDueTransfers env w) =
        Inr (Summary (length ?due) (length (filter (\<lambda>e. isSuccess (outcome e)) res))
               (length (filter (\<lambda>e. \<not> isSuccess (outcome e)) res)) res)"
      using processDue_ok[OF ok] False pl res(1) unfolding due'[symmetric]
      by (simp add: Let_def)
    moreover have "length (filter (\<lambda>e. isSuccess (outcome e)) res)
        + length (filter (\<lambda>e. \<not> isSuccess (outcome e)) res) = length ?due"
      using sum_length_filter_compl[of "\<lambda>e. isSuccess (outcome e)" res] res(2) by simp
    ultimately show ?thesis using False res(3) by auto
  qed
  then show "let due = ?due in
     if due = []
     then fst (processDueTransfers env w) = Inr (NoDue 0 ''No due transfers to process'')
     else \<exists>results.
            fst (processDueTransfers env w) =
              Inr (Summary (length due)
                     (length (filter (\<lambda>e. isSuccess (outcome e)) results))
                     (length (filter (\<lambda>e. \<not> isSuccess (outcome e)) results)) results)
            \<and> map transferId results = map tid due
            \<and> length (filter (\<lambda>e. isSuccess (outcome e)) results)
                + length (filter (\<lambda>e. \<not> isSuccess (outcome e)) results) = length due"
    by (simp only: Let_def)
qed

theorem processDueTransfers_summary_witness:
  "storeFault downEnv (tick dueWorld) = Some ''store down''
   \<and> fst (processDueTransfers downEnv dueWorld) = Inl (External ''store down'')
   \<and> storeFault lowLimitEnv (tick perRecipientWorld) = None
   \<and> fst (processDueTransfers lowLimitEnv perRecipientWorld) =
       Inr (Summary 1 0 1 [\<lparr>transferId = ''t1'', be_title = ''transfer t1'',
                             outcome = Failure (ExceedsAuthorization (Finite 20) (Finite 15))\<rparr>])
   \<and> (\<exists>results. fst (processDueTransfers lowLimitEnv perRecipientWorld) =
          Inr (Summary 1 (length (filter (\<lambda>e. isSuccess (outcome e)) results))
                 (length (filter (\<lambda>e. \<not> isSuccess (outcome e)) results)) results)
        \<and> map transferId results = [''t1''])"
proof -
  let ?t = "mkTransfer ''t1'' 0 [''0xA'', ''0xB''] (Finite 10) True"
  have d: "storeFault downEnv (tick dueWorld) = Some ''store down''" by (simp add: downEnv_simps)
  from processDueTransfers_summary[of downEnv dueWorld "''store down''"] d
  have a: "fst (processDueTransfers downEnv dueWorld) = Inl (External ''store down'')" by blast
  have n: "storeFault lowLimitEnv (tick perRecipientWorld) = None" by (simp add: lowLimitEnv_simps)
  have due: "sort_key scheduledDate
       (filter (\<lambda>t. status t = Scheduled \<and> scheduledDate t \<le> clock lowLimitEnv (tick perRecipientWorld))
          (db perRecipientWorld)) = [?t]"
    by (simp add: perRecipientWorld_def mkWorld_simps mkTransfer_simps lowLimitEnv_simps)
  from processDueTransfers_summary[of lowLimitEnv perRecipientWorld "''x''"] n
  have b: "\<exists>results. fst (processDueTransfers lowLimitEnv perRecipientWorld) =
          Inr (Summary 1 (length (filter (\<lambda>e. isSuccess (outcome e)) results))
                 (length (filter (\<lambda>e. \<not> isSuccess (outcome e)) results)) results)
        \<and> map transferId results = [''t1'']"
    unfolding due Let_def by (auto simp: mkTransfer_simps)
  from d a n b all_fail_run show ?thesis by blast
qed

text \<open>
  C8 as stated fails when nothing is due: on an empty collection the result is the object
  \<^verbatim>\<open>{processed: 0, message}\<close>, which is not of the shape
  \<^verbatim>\<open>{processed, successful, failed, results}\<close>.
\<close>

theorem processDueTransfers_zero_due_counterexample:
  "fst (processDueTransfers okEnv (mkWorld [])) = Inr (NoDue 0 ''No due transfers to process'')"
  by code_simp

subsection \<open>C9: Recurrence expansion\<close>

text \<open>
  C9. In every environment: a call of \<^verbatim>\<open>executeScheduledTransfer\<close> that returns success has
  called the recurrence expander exactly once with the transfer's \<open>parentRecurringId\<close> when
  it has one (and not at all otherwise), and a call that returns a failure has not called
  it. Whether the expander throws plays no role: for a transfer with parent \<open>p\<close> whose
  checks pass and whose sends all succeed, with a store that does not fail, the call returns
  success, the stored record is \<open>Completed\<close>, and the expander was called once with \<open>p\<close>,
  whatever \<open>generateNextInstance\<close> answers.
\<close>

theorem recurrence_expander_calls:
  assumes "executeScheduledTransfer env i w = (r, w')"
  shows "(case r of
            Inr (Success t' res) \<Rightarrow>
              expanded w' = expanded w @ (case parentRecurringId t' of None \<Rightarrow> [] | Some q \<Rightarrow> [q])
              \<and> status t' = Completed
          | Inr (Failure e) \<Rightarrow> expanded w' = expanded w
          | Inl e \<Rightarrow> False)
    \<and> ((\<forall>n. storeFault env n = None) \<and> stored w i = Some t \<and> status t = Scheduled
        \<and> checkAuthorization env (Suc (tick w)) (userAddress t) = Inr a \<and> isValid a
        \<and> \<not> numGt (totalAmount t (normalizedRecipients t)) (maxAmount a)
        \<and> (\<forall>k x. x \<in> set (normalizedRecipients t) \<longrightarrow>
             (\<exists>res. executeOnChain env k (userAddress t) (address x)
                      (recipientAmount t (normalizedRecipients t)) (retryLimit t) = Inr res
                    \<and> success res))
        \<and> parentRecurringId t = Some p
       \<longrightarrow> (\<exists>t' res. r = Inr (Success t' res) \<and> parentRecurringId t' = Some p
              \<and> status t' = Completed \<and> stored w' i = Some t'
              \<and> expanded w' = expanded w @ [p]))"
proof (intro conjI impI)
  show "case r of
          Inr (Success t' res) \<Rightarrow>
            expanded w' = expanded w @ (case parentRecurringId t' of None \<Rightarrow> [] | Some q \<Rightarrow> [q])
            \<and> status t' = Completed
        | Inr (Failure e) \<Rightarrow> expanded w' = expanded w
        | Inl e \<Rightarrow> False"
    using exec_general[OF assms] by simp
next
  assume h: "(\<forall>n. storeFault env n = None) \<and> stored w i = Some t \<and> status t = Scheduled
        \<and> checkAuthorization env (Suc (tick w)) (userAddress t) = Inr a \<and> isValid a
        \<and> \<not> numGt (totalAmount t (normalizedRecipients t)) (maxAmount a)
        \<and> (\<forall>k x. x \<in> set (normalizedRecipients t) \<longrightarrow>
             (\<exists>res. executeOnChain env k (userAddress t) (address x)
                      (recipientAmount t (normalizedRecipients t)) (retryLimit t) = Inr res
                    \<and> success res))
        \<and> parentRecurringId t = Some p"
  let ?n = "length (normalizedRecipients t)"
  let ?res = "sendResults env t (tick w + 3)"
  let ?t2 = "completedTransfer env t (normalizedRecipients t) ?res (tick w + 3 + ?n)"
  from h have ac: "\<forall>x \<in> set ?res. rr_status x = Completed"
    using sendResults_all_completed[of t env "tick w + 3"] by blast
  from h have pre: "\<forall>n. storeFault env n = None" "stored w i = Some t" "status t = Scheduled"
    "checkAuthorization env (Suc (tick w)) (userAddress t) = Inr a" "isValid a"
    "\<not> numGt (totalAmount t (normalizedRecipients t)) (maxAmount a)" and par: "parentRecurringId t = Some p"
    by blast+
  from exec_success[OF pre ac] assms par
  have r: "r = Inr (Success ?t2 ?res)"
    and w': "db w' = replaceById ?t2 (db w) @ snd (generateNextInstance env (tick w + 4 + ?n) p)"
    and ex: "expanded w' = expanded w @ [p]"
    by (auto simp: Let_def)
  have st: "stored w' i = Some ?t2"
    using stored_replace[OF pre(2) _ w'] by (simp add: completedTransfer_tid)
  have "parentRecurringId ?t2 = Some p" "status ?t2 = Completed"
    using par by (simp_all add: completedTransfer_def Let_def)
  with r st ex show "\<exists>t' res. r = Inr (Success t' res) \<and> parentRecurringId t' = Some p
              \<and> status t' = Completed \<and> stored w' i = Some t'
              \<and> expanded w' = expanded w @ [p]"
    by blast
qed

theorem recurrence_expander_calls_witness:
  "generateNextInstance throwingExpanderEnv 5 ''rec1'' = (Some ''expander down'', [])
   \<and> expanded (snd (executeScheduledTransfer throwingExpanderEnv ''t1'' recurringWorld)) = [''rec1'']
   \<and> (\<exists>t' res. fst (executeScheduledTransfer throwingExpanderEnv ''t1'' recurringWorld)
                   = Inr (Success t' res)
         \<and> status t' = Completed
         \<and> stored (snd (executeScheduledTransfer throwingExpanderEnv ''t1'' recurringWorld)) ''t1''
             = Some t')"
proof -
  let ?t = "(mkTransfer ''t1'' 0 [''0xA''] (Finite 10) False)\<lparr>parentRecurringId := Some ''rec1''\<rparr>"
  have h1: "\<forall>n. storeFault throwingExpanderEnv n = None" by (simp add: throwingExpanderEnv_simps)
  have h2: "stored recurringWorld ''t1'' = Some ?t"
    unfolding recurringWorld_def by (rule stored_mkWorld_single) (simp add: mkTransfer_simps)
  have h3: "status ?t = Scheduled" by (simp add: mkTransfer_simps)
  have h4: "checkAuthorization throwingExpanderEnv (Suc (tick recurringWorld)) (userAddress ?t)
      = Inr \<lparr>isValid = True, maxAmount = Finite 100\<rparr>"
    by (simp add: throwingExpanderEnv_simps)
  have nr: "normalizedRecipients ?t = [\<lparr>address = ''0xA''\<rparr>]"
    by (simp add: normalizedRecipients_def mkTransfer_simps)
  have h6: "\<not> numGt (totalAmount ?t (normalizedRecipients ?t)) (maxAmount \<lparr>isValid = True, maxAmount = Finite 100\<rparr>)"
    by code_simp
  have h7: "\<forall>k x. x \<in> set (normalizedRecipients ?t) \<longrightarrow>
           (\<exists>res. executeOnChain throwingExpanderEnv k (userAddress ?t) (address x)
                    (recipientAmount ?t (normalizedRecipients ?t)) (retryLimit ?t) = Inr res
                  \<and> success res)"
    by (simp add: throwingExpanderEnv_simps)
  have h8: "parentRecurringId ?t = Some ''rec1''" by simp
  have hyp: "(\<forall>n. storeFault throwingExpanderEnv n = None) \<and> stored recurringWorld ''t1'' = Some ?t
        \<and> status ?t = Scheduled
        \<and> checkAuthorization throwingExpanderEnv (Suc (tick recurringWorld)) (userAddress ?t)
            = Inr \<lparr>isValid = True, maxAmount = Finite 100\<rparr> \<and> isValid \<lparr>isValid = True, maxAmount = Finite 100\<rparr>
        \<and> \<not> numGt (totalAmount ?t (normalizedRecipients ?t)) (maxAmount \<lparr>isValid = True, maxAmount = Finite 100\<rparr>)
        \<and> (\<forall>k x. x \<in> set (normalizedRecipients ?t) \<longrightarrow>
             (\<exists>res. executeOnChain throwingExpanderEnv k (userAddress ?t) (address x)
                      (recipientAmount ?t (normalizedRecipients ?t)) (retryLimit ?t) = Inr res
                    \<and> success res))
        \<and> parentRecurringId ?t = Some ''rec1''"
    using h1 h2 h3 h4 h6 h7 h8 by simp
  from recurrence_expander_calls[OF surjective_pairing,
      of throwingExpanderEnv "''t1''" recurringWorld ?t "\<lparr>isValid = True, maxAmount = Finite 100\<rparr>" "''rec1''"] hyp
  have "\<exists>t' res. fst (executeScheduledTransfer throwingExpanderEnv ''t1'' recurringWorld)
                   = Inr (Success t' res) \<and> parentRecurringId t' = Some ''rec1''
         \<and> status t' = Completed
         \<and> stored (snd (executeScheduledTransfer throwingExpanderEnv ''t1'' recurringWorld)) ''t1''
             = Some t'
         \<and> expanded (snd (executeScheduledTransfer throwingExpanderEnv ''t1'' recurringWorld))
             = expanded recurringWorld @ [''rec1'']"
    by blast
  then show ?thesis
    by (auto simp: throwingExpanderEnv_simps recurringWorld_def mkWorld_simps)
qed

subsection \<open>C10: Totality\<close>

text \<open>
  C10. \<^verbatim>\<open>executeScheduledTransfer\<close> never throws: for every environment, id and world it
  returns a result object. Whatever error the body of the \<^verbatim>\<open>try\<close> raises (not found,
  invalid state, authorization, send failures, a failing store) comes back as
  \<^verbatim>\<open>{success: false, error}\<close> with that error, also when the reload or the save in the
  handler fails; a body that finishes comes back as \<^verbatim>\<open>{success: true, transfer, results}\<close>.
  For an id with no stored transfer the error is the not-found error (or the store's own
  error when the lookup itself fails).
\<close>

theorem executeScheduledTransfer_total:
  "(\<exists>r. fst (executeScheduledTransfer env i w) = Inr r) \<and>
   fst (executeScheduledTransfer env i w) =
     (case fst (tryBody env i w) of
        Inl e \<Rightarrow> Inr (Failure e)
      | Inr (t, results) \<Rightarrow> Inr (Success t results)) \<and>
   (stored w i = None \<longrightarrow>
      fst (executeScheduledTransfer env i w) =
        Inr (Failure (case storeFault env (tick w) of
                        None \<Rightarrow> NotFound | Some m \<Rightarrow> External m)))"
proof -
  have nf: "fst (tryBody env i w) =
      Inl (case storeFault env (tick w) of None \<Rightarrow> NotFound | Some m \<Rightarrow> External m)"
    if "stored w i = None"
    using that tryBody_notfound[of env w i] tryBody_fault[of env w _ i]
    by (cases "storeFault env (tick w)") auto
  show ?thesis
    unfolding exec_fst using nf
    by (auto split: sum.splits prod.splits)
qed

theorem executeScheduledTransfer_total_witness:
  "stored (mkWorld []) ''t1'' = None \<and>
   fst (executeScheduledTransfer okEnv ''t1'' (mkWorld [])) = Inr (Failure NotFound)"
proof -
  have h: "stored (mkWorld []) ''t1'' = None"
    by (simp add: stored_def mkWorld_def)
  have s: "storeFault okEnv (tick (mkWorld [])) = None"
    by (simp add: okEnv_def)
  from executeScheduledTransfer_total [of okEnv "''t1''" "mkWorld []"] h
  have "fst (executeScheduledTransfer okEnv ''t1'' (mkWorld [])) =
        Inr (Failure (case storeFault okEnv (tick (mkWorld [])) of
                        None \<Rightarrow> NotFound | Some m \<Rightarrow> External m))"
    by blast
  with h s show ?thesis by simp
qed

end
